theory Spec2Isabelle
  imports Complex_Main "HOL-Library.AList" "HOL-Library.Sublist"
begin

section \<open>Python values: exceptions, dictionaries, cliques\<close>

text \<open>
  An exception that leaves a function is the left summand of its result. A Python
  \<^verbatim>\<open>dict\<close> is an association list in insertion order whose keys are distinct;
  \<^verbatim>\<open>d[k]\<close> raises \<^verbatim>\<open>KeyError\<close> on a missing key and \<^verbatim>\<open>d[k] = v\<close> replaces
  the value in place or appends a new entry, which is what \<open>AList.update\<close> does.
  A clique is a tuple of attribute names. Floating-point numbers are modelled by
  the reals: rounding, infinities and NaN are outside the model.
\<close>

datatype error = ValueError | KeyError | ZeroDivisionError | TypeError

type_synonym 'a clique = "'a list"

type_synonym ('k, 'v) dict = "('k \<times> 'v) list"

definition and_then :: "error + 'x \<Rightarrow> ('x \<Rightarrow> error + 'y) \<Rightarrow> error + 'y" where
  "and_then r k = (case r of Inl e \<Rightarrow> Inl e | Inr x \<Rightarrow> k x)"

definition keys :: "('k, 'v) dict \<Rightarrow> 'k list" where
  "keys d = map fst d"

definition getitem :: "('k, 'v) dict \<Rightarrow> 'k \<Rightarrow> error + 'v" where
  "getitem d k = (case map_of d k of None \<Rightarrow> Inl KeyError | Some v \<Rightarrow> Inr v)"

text \<open>The comprehension \<^verbatim>\<open>{k: g(k) for k in ks}\<close>; \<open>g\<close> may raise.\<close>

fun dict_comp :: "('k \<Rightarrow> error + 'v) \<Rightarrow> 'k list \<Rightarrow> ('k, 'v) dict \<Rightarrow> error + ('k, 'v) dict" where
  "dict_comp g [] acc = Inr acc"
| "dict_comp g (k # ks) acc = and_then (g k) (\<lambda>v. dict_comp g ks (AList.update k v acc))"

text \<open>The generator sum \<^verbatim>\<open>sum(g(k) for k in ks)\<close>, which starts from 0 and adds from the left.\<close>

fun sum_gen :: "('k \<Rightarrow> error + real) \<Rightarrow> 'k list \<Rightarrow> real \<Rightarrow> error + real" where
  "sum_gen g [] acc = Inr acc"
| "sum_gen g (k # ks) acc = and_then (g k) (\<lambda>v. sum_gen g ks (acc + v))"

section \<open>CliqueVector (src/mbi/clique\_vector.py)\<close>

text \<open>
  The \<^verbatim>\<open>Factor\<close> class is not part of the sources. Its operations are parameters:
  \<open>f_zeros domain cl\<close> stands for \<^verbatim>\<open>Factor.zeros(domain.project(cl))\<close>,
  \<open>f_scale c f\<close> for \<^verbatim>\<open>c * f\<close>, \<open>f_add_scalar f c\<close> for \<^verbatim>\<open>f + c\<close> with a scalar,
  \<open>f_mul\<close> for the product of two factors, \<open>f_sum\<close> for \<^verbatim>\<open>.sum()\<close>,
  \<open>f_datavector\<close> for \<^verbatim>\<open>.datavector()\<close> and \<open>f_domain\<close> for \<^verbatim>\<open>.domain\<close>.
  They are taken to return normally.
\<close>

record ('a, 'd, 'f) factor_ops =
  f_zeros :: "'d \<Rightarrow> 'a clique \<Rightarrow> 'f"
  f_add :: "'f \<Rightarrow> 'f \<Rightarrow> 'f"
  f_add_scalar :: "'f \<Rightarrow> real \<Rightarrow> 'f"
  f_scale :: "real \<Rightarrow> 'f \<Rightarrow> 'f"
  f_mul :: "'f \<Rightarrow> 'f \<Rightarrow> 'f"
  f_sum :: "'f \<Rightarrow> real"
  f_project :: "'f \<Rightarrow> 'a clique \<Rightarrow> 'f"
  f_datavector :: "'f \<Rightarrow> real list"
  f_domain :: "'f \<Rightarrow> 'd"
  domain_merge :: "'d \<Rightarrow> 'd \<Rightarrow> 'd"

type_synonym ('a, 'f) clique_vector = "('a clique, 'f) dict"

text \<open>The right operand of \<^verbatim>\<open>+\<close> and \<^verbatim>\<open>-\<close>: a scalar (\<^verbatim>\<open>np.isscalar\<close>) or a CliqueVector.\<close>

datatype ('a, 'f) operand = Scalar real | Vec "('a, 'f) clique_vector"

definition CliqueVector_zeros ::
  "('a, 'd, 'f) factor_ops \<Rightarrow> 'd \<Rightarrow> 'a clique list \<Rightarrow> ('a, 'f) clique_vector" where
  "CliqueVector_zeros ops domain cliques =
     foldl (\<lambda>acc cl. AList.update cl (f_zeros ops domain cl) acc) [] cliques"

text \<open>
  \<^verbatim>\<open>project\<close>: the loop over \<^verbatim>\<open>self.cliques\<close> returns at the first key that covers
  the query; falling out of the loop raises \<^verbatim>\<open>ValueError\<close>.
\<close>

fun project_loop ::
  "('a, 'd, 'f) factor_ops \<Rightarrow> ('a, 'f) clique_vector \<Rightarrow> 'a clique \<Rightarrow> 'a clique list \<Rightarrow> error + 'f" where
  "project_loop ops self clique [] = Inl ValueError"
| "project_loop ops self clique (cl # rest) =
     (if set clique \<subseteq> set cl
      then and_then (getitem self cl) (\<lambda>f. Inr (f_project ops f clique))
      else project_loop ops self clique rest)"

definition CliqueVector_project ::
  "('a, 'd, 'f) factor_ops \<Rightarrow> ('a, 'f) clique_vector \<Rightarrow> 'a clique \<Rightarrow> error + 'f" where
  "CliqueVector_project ops self clique = project_loop ops self clique (keys self)"

text \<open>
  \<^verbatim>\<open>combine\<close>: for each key \<^verbatim>\<open>cl\<close> of \<^verbatim>\<open>other\<close> the inner loop walks the keys of
  \<^verbatim>\<open>self\<close>, and at the first one that covers \<^verbatim>\<open>cl\<close> it stores
  \<^verbatim>\<open>self[cl2] + other[cl]\<close> under \<^verbatim>\<open>cl2\<close> and breaks. The receiver is mutated, so
  the model returns the new receiver.
\<close>

fun combine_inner ::
  "('a, 'd, 'f) factor_ops \<Rightarrow> ('a, 'f) clique_vector \<Rightarrow> ('a, 'f) clique_vector \<Rightarrow> 'a clique \<Rightarrow>
   'a clique list \<Rightarrow> error + ('a, 'f) clique_vector" where
  "combine_inner ops self other cl [] = Inr self"
| "combine_inner ops self other cl (cl2 # rest) =
     (if set cl \<subseteq> set cl2
      then and_then (getitem self cl2) (\<lambda>a.
           and_then (getitem other cl) (\<lambda>b.
           Inr (AList.update cl2 (f_add ops a b) self)))
      else combine_inner ops self other cl rest)"

fun combine_outer ::
  "('a, 'd, 'f) factor_ops \<Rightarrow> ('a, 'f) clique_vector \<Rightarrow> ('a, 'f) clique_vector \<Rightarrow>
   'a clique list \<Rightarrow> error + ('a, 'f) clique_vector" where
  "combine_outer ops self other [] = Inr self"
| "combine_outer ops self other (cl # rest) =
     and_then (combine_inner ops self other cl (keys self))
       (\<lambda>self'. combine_outer ops self' other rest)"

definition CliqueVector_combine ::
  "('a, 'd, 'f) factor_ops \<Rightarrow> ('a, 'f) clique_vector \<Rightarrow> ('a, 'f) clique_vector \<Rightarrow>
   error + ('a, 'f) clique_vector" where
  "CliqueVector_combine ops self other = combine_outer ops self other (keys other)"

definition CliqueVector_mul ::
  "('a, 'd, 'f) factor_ops \<Rightarrow> ('a, 'f) clique_vector \<Rightarrow> real \<Rightarrow> error + ('a, 'f) clique_vector" where
  "CliqueVector_mul ops self const =
     dict_comp (\<lambda>cl. and_then (getitem self cl) (\<lambda>f. Inr (f_scale ops const f))) (keys self) []"

definition CliqueVector_add ::
  "('a, 'd, 'f) factor_ops \<Rightarrow> ('a, 'f) clique_vector \<Rightarrow> ('a, 'f) operand \<Rightarrow>
   error + ('a, 'f) clique_vector" where
  "CliqueVector_add ops self other =
     (case other of
        Scalar c \<Rightarrow>
          dict_comp (\<lambda>cl. and_then (getitem self cl) (\<lambda>a. Inr (f_add_scalar ops a c))) (keys self) []
      | Vec w \<Rightarrow>
          dict_comp (\<lambda>cl. and_then (getitem self cl) (\<lambda>a.
                          and_then (getitem w cl) (\<lambda>b. Inr (f_add ops a b)))) (keys self) [])"

text \<open>\<^verbatim>\<open>self + -1 * other\<close>: the product is taken first, by \<^verbatim>\<open>other.__rmul__\<close> for a CliqueVector.\<close>

definition CliqueVector_sub ::
  "('a, 'd, 'f) factor_ops \<Rightarrow> ('a, 'f) clique_vector \<Rightarrow> ('a, 'f) operand \<Rightarrow>
   error + ('a, 'f) clique_vector" where
  "CliqueVector_sub ops self other =
     (case other of
        Scalar c \<Rightarrow> CliqueVector_add ops self (Scalar (- 1 * c))
      | Vec w \<Rightarrow> and_then (CliqueVector_mul ops w (- 1)) (\<lambda>neg. CliqueVector_add ops self (Vec neg)))"

definition CliqueVector_dot ::
  "('a, 'd, 'f) factor_ops \<Rightarrow> ('a, 'f) clique_vector \<Rightarrow> ('a, 'f) clique_vector \<Rightarrow> error + real" where
  "CliqueVector_dot ops self other =
     sum_gen (\<lambda>cl. and_then (getitem self cl) (\<lambda>a.
                   and_then (getitem other cl) (\<lambda>b. Inr (f_sum ops (f_mul ops a b))))) (keys self) 0"

text \<open>
  The \<^verbatim>\<open>domain\<close> property folds \<^verbatim>\<open>Domain.merge\<close> over the factors' domains;
  \<^verbatim>\<open>functools.reduce\<close> raises \<^verbatim>\<open>TypeError\<close> on an empty sequence.
\<close>

definition CliqueVector_domain :: "('a, 'd, 'f) factor_ops \<Rightarrow> ('a, 'f) clique_vector \<Rightarrow> error + 'd" where
  "CliqueVector_domain ops self =
     (case map (\<lambda>(cl, f). f_domain ops f) self of
        [] \<Rightarrow> Inl TypeError
      | d # ds \<Rightarrow> Inr (foldl (domain_merge ops) d ds))"

section \<open>Workload compilation (mechanisms/aim\_simple.py)\<close>

text \<open>
  \<^verbatim>\<open>itertools.combinations(s, r)\<close>: the sub-tuples of length \<open>r\<close>, in the order of the
  positions they take their elements from.
\<close>

fun combinations :: "'a list \<Rightarrow> nat \<Rightarrow> 'a list list" where
  "combinations xs 0 = [[]]"
| "combinations [] (Suc r) = []"
| "combinations (x # xs) (Suc r) = map ((#) x) (combinations xs r) @ combinations xs (Suc r)"

definition powerset :: "'a list \<Rightarrow> 'a list list" where
  "powerset iterable =
     (let s = iterable in concat (map (\<lambda>r. combinations s r) [1..<length s + 1]))"

text \<open>
  \<^verbatim>\<open>downward_closure\<close> collects the sub-tuples in a Python \<^verbatim>\<open>set\<close> and sorts the set by
  length. The order in which a set of tuples is iterated depends on hash values, so it
  is a parameter: \<open>set_iter xs\<close> is the iteration order of the set that results from
  adding the elements of \<open>xs\<close> one after the other. \<^verbatim>\<open>sorted\<close> is stable, as is
  \<open>sort_key\<close>.
\<close>

definition set_iteration :: "('x list \<Rightarrow> 'x list) \<Rightarrow> bool" where
  "set_iteration set_iter = (\<forall>xs. distinct (set_iter xs) \<and> set (set_iter xs) = set xs)"

definition downward_closure :: "('a clique list \<Rightarrow> 'a clique list) \<Rightarrow> 'a clique list \<Rightarrow> 'a clique list" where
  "downward_closure set_iter Ws = sort_key length (set_iter (concat (map powerset Ws)))"

definition compile_workload ::
  "('a clique list \<Rightarrow> 'a clique list) \<Rightarrow> ('a clique \<times> real) list \<Rightarrow> error + ('a clique, real) dict" where
  "compile_workload set_iter workload =
     (let weights = foldl (\<lambda>acc (cl, wt). AList.update cl wt acc) [] workload;
          workload_cliques = keys weights;
          score = (\<lambda>cl. sum_gen (\<lambda>workload_cl.
                     and_then (getitem weights workload_cl) (\<lambda>wt.
                       Inr (wt * real (card (set cl \<inter> set workload_cl))))) workload_cliques 0)
      in dict_comp score (downward_closure set_iter workload_cliques) [])"

section \<open>Estimation (src/mbi/estimation.py)\<close>

text \<open>
  A \<^verbatim>\<open>LinearMeasurement\<close> carries the noisy vector, the clique, the noise standard
  deviation and the query, which may raise. Vectors are one-dimensional arrays.
\<close>

record 'a LinearMeasurement =
  noisy_measurement :: "real list"
  M_clique :: "'a clique"
  stddev :: real
  query :: "real list \<Rightarrow> error + real list"

text \<open>
  \<^verbatim>\<open>np.allclose(a, b)\<close> with its default tolerances: every entry satisfies
  \<open>\<bar>a - b\<bar> \<le> 1e-8 + 1e-5 * \<bar>b\<bar>\<close>, after broadcasting a one-element array against
  the other; arrays of other unequal lengths cannot be broadcast, which raises.
\<close>

definition isclose :: "real \<Rightarrow> real \<Rightarrow> bool" where
  "isclose a b = (\<bar>a - b\<bar> \<le> 1 / 10 ^ 8 + (1 / 10 ^ 5) * \<bar>b\<bar>)"

definition allclose :: "real list \<Rightarrow> real list \<Rightarrow> error + bool" where
  "allclose a b =
     (if length a = length b then Inr (list_all2 isclose a b)
      else if length a = 1 then Inr (list_all (\<lambda>y. isclose (hd a) y) b)
      else if length b = 1 then Inr (list_all (\<lambda>x. isclose x (hd b)) a)
      else Inl ValueError)"

text \<open>
  The loop of \<^verbatim>\<open>minimum_variance_unbiased_total\<close>: an exception inside the
  \<^verbatim>\<open>try\<close> block skips the measurement.
\<close>

fun mvut_loop :: "'a LinearMeasurement list \<Rightarrow> real list \<Rightarrow> real list \<Rightarrow> real list \<times> real list" where
  "mvut_loop [] estimates variances = (estimates, variances)"
| "mvut_loop (M # rest) estimates variances =
     (let y = noisy_measurement M in
      case and_then (query M y) (\<lambda>q. allclose q y) of
        Inl e \<Rightarrow> mvut_loop rest estimates variances
      | Inr identity \<Rightarrow>
          if identity
          then mvut_loop rest (estimates @ [sum_list y]) (variances @ [(stddev M)\<^sup>2 * real (length y)])
          else mvut_loop rest estimates variances)"

definition minimum_variance_unbiased_total :: "'a LinearMeasurement list \<Rightarrow> real" where
  "minimum_variance_unbiased_total measurements =
     (let (estimates, variances) = mvut_loop measurements [] [] in
      if length estimates = 0 then 1
      else
        let variance = 1 / sum_list (map (\<lambda>v. 1 / v) variances);
            estimate = variance * sum_list (map2 (\<lambda>e v. e / v) estimates variances)
        in max 1 estimate)"

text \<open>
  The \<^verbatim>\<open>mbi\<close> package beyond the two modules above is not part of the sources; what
  the code calls from it is a parameter: the factor operations,
  \<^verbatim>\<open>marginal_loss.from_linear_measurements\<close>, the gradient that \<^verbatim>\<open>jax.value_and_grad\<close>
  computes, and \<^verbatim>\<open>marginal_oracles.variable_elimination\<close>. A marginal loss function
  has its cliques and can be called on a vector of marginals.
\<close>

record ('a, 'f) MarginalLossFn =
  loss_cliques :: "'a clique list"
  loss_call :: "('a, 'f) clique_vector \<Rightarrow> real"

datatype ('a, 'f) loss_arg = Measurements "'a LinearMeasurement list" | LossFn "('a, 'f) MarginalLossFn"

record ('a, 'd, 'f) mbi =
  factor :: "('a, 'd, 'f) factor_ops"
  from_linear_measurements :: "'a LinearMeasurement list \<Rightarrow> ('a, 'f) MarginalLossFn"
  grad :: "(('a, 'f) clique_vector \<Rightarrow> real) \<Rightarrow> ('a, 'f) clique_vector \<Rightarrow> ('a, 'f) clique_vector"
  variable_elimination :: "('a, 'f) clique_vector \<Rightarrow> 'a clique \<Rightarrow> real \<Rightarrow> 'f"

record ('a, 'f) GraphicalModel =
  model_potentials :: "('a, 'f) clique_vector"
  model_marginals :: "('a, 'f) clique_vector"
  model_total :: real

text \<open>\<^verbatim>\<open>GraphicalModel.project\<close>: any exception of the projection falls back to exact inference.\<close>

definition GraphicalModel_project ::
  "('a, 'd, 'f) mbi \<Rightarrow> ('a, 'f) GraphicalModel \<Rightarrow> 'a clique \<Rightarrow> 'f" where
  "GraphicalModel_project env self attrs =
     (case CliqueVector_project (factor env) (model_marginals self) attrs of
        Inr f \<Rightarrow> f
      | Inl e \<Rightarrow> variable_elimination env (model_potentials self) attrs (model_total self))"

definition initialize ::
  "('a, 'd, 'f) mbi \<Rightarrow> 'd \<Rightarrow> ('a, 'f) loss_arg \<Rightarrow> real option \<Rightarrow> ('a, 'f) clique_vector option \<Rightarrow>
   error + (('a, 'f) MarginalLossFn \<times> real \<times> ('a, 'f) clique_vector)" where
  "initialize env domain loss_fn known_total potentials =
     and_then
       (case loss_fn of
          Measurements ms \<Rightarrow>
            Inr (from_linear_measurements env ms,
                 (case known_total of None \<Rightarrow> minimum_variance_unbiased_total ms | Some k \<Rightarrow> k))
        | LossFn l \<Rightarrow>
            (case known_total of None \<Rightarrow> Inl ValueError | Some k \<Rightarrow> Inr (l, k)))
       (\<lambda>(loss_fn, known_total).
          Inr (loss_fn, known_total,
               (case potentials of
                  None \<Rightarrow> CliqueVector_zeros (factor env) domain (loss_cliques loss_fn)
                | Some p \<Rightarrow> p)))"

text \<open>
  The inner function \<^verbatim>\<open>update\<close> of \<^verbatim>\<open>mirror_descent\<close>. It returns the new
  potentials, the loss, the step size and the marginals of the old potentials.
\<close>

definition mirror_descent_update ::
  "('a, 'd, 'f) mbi \<Rightarrow> ('a, 'f) MarginalLossFn \<Rightarrow> real \<Rightarrow>
   (('a, 'f) clique_vector \<Rightarrow> real \<Rightarrow> ('a, 'f) clique_vector) \<Rightarrow> real option \<Rightarrow>
   ('a, 'f) clique_vector \<Rightarrow> real \<Rightarrow>
   error + (('a, 'f) clique_vector \<times> real \<times> real \<times> ('a, 'f) clique_vector)" where
  "mirror_descent_update env loss_fn known_total marginal_oracle stepsize theta alpha =
     (let mu = marginal_oracle theta known_total;
          loss = loss_call loss_fn mu;
          dL = grad env (loss_call loss_fn) mu
      in
      and_then (CliqueVector_mul (factor env) dL alpha) (\<lambda>step.
      and_then (CliqueVector_sub (factor env) theta (Vec step)) (\<lambda>theta2.
        if stepsize \<noteq> None then Inr (theta2, loss, alpha, mu)
        else
          let mu2 = marginal_oracle theta2 known_total;
              loss2 = loss_call loss_fn mu2
          in
          and_then (CliqueVector_sub (factor env) mu (Vec mu2)) (\<lambda>diff.
          and_then (CliqueVector_dot (factor env) dL diff) (\<lambda>inner.
            let sufficient_decrease = (loss - loss2 \<ge> 0.5 * alpha * inner);
                alpha' = (if sufficient_decrease then alpha else 0.5 * alpha);
                theta' = (if sufficient_decrease then theta2 else theta);
                loss' = (if sufficient_decrease then loss2 else loss)
            in Inr (theta', loss', alpha', mu))))))"

text \<open>
  The loop \<^verbatim>\<open>for t in range(iters)\<close>. The calls of \<^verbatim>\<open>callback_fn\<close> are the
  effect of the loop: the trace collects their arguments in order.
\<close>

fun mirror_descent_loop ::
  "(('a, 'f) clique_vector \<Rightarrow> real \<Rightarrow>
      error + (('a, 'f) clique_vector \<times> real \<times> real \<times> ('a, 'f) clique_vector)) \<Rightarrow>
   nat \<Rightarrow> ('a, 'f) clique_vector \<Rightarrow> real \<Rightarrow> ('a, 'f) clique_vector list \<Rightarrow>
   error + (('a, 'f) clique_vector \<times> real \<times> ('a, 'f) clique_vector list)" where
  "mirror_descent_loop update 0 potentials alpha trace = Inr (potentials, alpha, trace)"
| "mirror_descent_loop update (Suc n) potentials alpha trace =
     and_then (update potentials alpha) (\<lambda>(potentials', loss, alpha', mu).
       mirror_descent_loop update n potentials' alpha' (trace @ [mu]))"

definition mirror_descent ::
  "('a, 'd, 'f) mbi \<Rightarrow> 'd \<Rightarrow> ('a, 'f) loss_arg \<Rightarrow> real option \<Rightarrow> ('a, 'f) clique_vector option \<Rightarrow>
   (('a, 'f) clique_vector \<Rightarrow> real \<Rightarrow> ('a, 'f) clique_vector) \<Rightarrow> nat \<Rightarrow> real option \<Rightarrow>
   error + (('a, 'f) GraphicalModel \<times> ('a, 'f) clique_vector list)" where
  "mirror_descent env domain loss_fn known_total potentials marginal_oracle iters stepsize =
     and_then (initialize env domain loss_fn known_total potentials) (\<lambda>(loss_fn, known_total, potentials).
       let alpha = (case stepsize of None \<Rightarrow> 2.0 | Some s \<Rightarrow> s) in
       and_then (mirror_descent_loop
                  (mirror_descent_update env loss_fn known_total marginal_oracle stepsize)
                  iters potentials alpha [])
         (\<lambda>(potentials, alpha, trace).
            let marginals = marginal_oracle potentials known_total in
            Inr (\<lparr>model_potentials = potentials, model_marginals = marginals,
                  model_total = known_total\<rparr>, trace)))"

section \<open>The AIM mechanism (mechanisms/aim\_simple.py)\<close>

text \<open>
  What the mechanism uses from outside the sources is collected in a record: the \<^verbatim>\<open>mbi\<close>
  functions above, the iteration order of Python sets of cliques, the default marginal
  oracle, \<^verbatim>\<open>domain.size\<close> and \<^verbatim>\<open>len(domain)\<close>, the maximal cliques of the junction tree
  of a list of cliques, the random generator (\<^verbatim>\<open>prng.normal(0, sigma, size)\<close>, with the
  generator's state passed along), \<^verbatim>\<open>exponential_mechanism\<close> of the base class
  \<^verbatim>\<open>Mechanism\<close>, the method \<^verbatim>\<open>expand\<close> called on the potentials (the CliqueVector class
  of the sources does not define it), \<^verbatim>\<open>synthetic_data.from_marginals\<close> and the default
  query of a \<^verbatim>\<open>LinearMeasurement\<close>. They are taken to return normally.
\<close>

record ('a, 'd, 'f, 's, 'y) world =
  mbi_env :: "('a, 'd, 'f) mbi"
  set_order :: "'a clique list \<Rightarrow> 'a clique list"
  message_passing_new :: "('a, 'f) clique_vector \<Rightarrow> real \<Rightarrow> ('a, 'f) clique_vector"
  domain_size :: "'d \<Rightarrow> 'a clique \<Rightarrow> nat"
  domain_len :: "'d \<Rightarrow> nat"
  maximal_cliques :: "'d \<Rightarrow> 'a clique list \<Rightarrow> 'a clique list"
  normal :: "'s \<Rightarrow> real \<Rightarrow> nat \<Rightarrow> real list \<times> 's"
  exponential_mechanism :: "'s \<Rightarrow> ('a clique, real) dict \<Rightarrow> real \<Rightarrow> real \<Rightarrow> 'a clique \<times> 's"
  expand :: "('a, 'f) clique_vector \<Rightarrow> 'a clique list \<Rightarrow> ('a, 'f) clique_vector"
  from_marginals :: "('a, 'f) GraphicalModel \<Rightarrow> real \<Rightarrow> 'y"
  default_query :: "real list \<Rightarrow> error + real list"

text \<open>A dataset gives its domain and, for a clique, \<^verbatim>\<open>data.project(cl).datavector()\<close>.\<close>

record ('a, 'd) Dataset =
  data_domain :: 'd
  data_project :: "'a clique \<Rightarrow> real list"

text \<open>
  The mechanism object. \<open>rho\<close> is set by the base class from epsilon and delta; \<open>rho_used\<close> and
  the generator are the fields that \<^verbatim>\<open>run\<close> mutates. (\<^verbatim>\<open>structural_zeros\<close> is stored and
  never used.)
\<close>

record 's AIM =
  rho :: real
  prng :: 's
  rounds :: "nat option"
  max_model_size :: real
  max_iters :: nat
  rho_used :: real

definition AIM_init :: "real \<Rightarrow> 's \<Rightarrow> nat option \<Rightarrow> real \<Rightarrow> nat \<Rightarrow> 's AIM" where
  "AIM_init rho0 prng0 rounds0 max_model_size0 max_iters0 =
     \<lparr>rho = rho0, prng = prng0, rounds = rounds0, max_model_size = max_model_size0,
      max_iters = max_iters0, rho_used = 0\<rparr>"

text \<open>Division of Python floats raises on a zero divisor.\<close>

definition py_div :: "real \<Rightarrow> real \<Rightarrow> error + real" where
  "py_div a b = (if b = 0 then Inl ZeroDivisionError else Inr (a / b))"

text \<open>\<^verbatim>\<open>max\<close> of the values of a dictionary raises \<^verbatim>\<open>ValueError\<close> when there is none.\<close>

definition py_max :: "real list \<Rightarrow> error + real" where
  "py_max vs = (case vs of [] \<Rightarrow> Inl ValueError | v # rest \<Rightarrow> Inr (fold max rest v))"

text \<open>An arithmetic operation of NumPy on two one-dimensional arrays, with broadcasting.\<close>

definition broadcast2 :: "(real \<Rightarrow> real \<Rightarrow> real) \<Rightarrow> real list \<Rightarrow> real list \<Rightarrow> error + real list" where
  "broadcast2 h a b =
     (if length a = length b then Inr (map2 h a b)
      else if length a = 1 then Inr (map (h (hd a)) b)
      else if length b = 1 then Inr (map (\<lambda>x. h x (hd b)) a)
      else Inl ValueError)"

definition hypothetical_model_size ::
  "('a, 'd, 'f, 's, 'y) world \<Rightarrow> 'd \<Rightarrow> 'a clique list \<Rightarrow> real" where
  "hypothetical_model_size world domain cliques =
     (let maximal = maximal_cliques world domain cliques;
          cells = sum_list (map (domain_size world domain) maximal);
          size_mb = real cells * 8 / 2 ^ 20
      in size_mb)"

fun filter_candidates_loop ::
  "('a, 'd, 'f, 's, 'y) world \<Rightarrow> ('a clique, real) dict \<Rightarrow> ('a, 'f) GraphicalModel \<Rightarrow> real \<Rightarrow>
   'a clique list \<Rightarrow> 'a clique list \<Rightarrow> ('a clique, real) dict \<Rightarrow> error + ('a clique, real) dict" where
  "filter_candidates_loop world candidates model size_limit free_cliques [] ans = Inr ans"
| "filter_candidates_loop world candidates model size_limit free_cliques (cl # rest) ans =
     and_then (CliqueVector_domain (factor (mbi_env world)) (model_potentials model)) (\<lambda>domain.
       let cond1 = (hypothetical_model_size world domain (keys (model_potentials model) @ [cl])
                      \<le> size_limit);
           cond2 = (cl \<in> set free_cliques)
       in if cond1 \<or> cond2
          then and_then (getitem candidates cl) (\<lambda>wt.
                 filter_candidates_loop world candidates model size_limit free_cliques rest
                   (AList.update cl wt ans))
          else filter_candidates_loop world candidates model size_limit free_cliques rest ans)"

definition filter_candidates ::
  "('a, 'd, 'f, 's, 'y) world \<Rightarrow> ('a clique, real) dict \<Rightarrow> ('a, 'f) GraphicalModel \<Rightarrow> real \<Rightarrow>
   error + ('a clique, real) dict" where
  "filter_candidates world candidates model size_limit =
     (let free_cliques = downward_closure (set_order world) (keys (model_potentials model))
      in filter_candidates_loop world candidates model size_limit free_cliques (keys candidates) [])"

fun worst_approximated_loop ::
  "('a, 'd, 'f, 's, 'y) world \<Rightarrow> ('a clique, real) dict \<Rightarrow> ('a clique, real list) dict \<Rightarrow>
   ('a, 'f) GraphicalModel \<Rightarrow> real \<Rightarrow> 'a clique list \<Rightarrow> ('a clique, real) dict \<Rightarrow>
   ('a clique, real) dict \<Rightarrow> error + (('a clique, real) dict \<times> ('a clique, real) dict)" where
  "worst_approximated_loop world candidates answers model sigma [] errors sensitivity =
     Inr (errors, sensitivity)"
| "worst_approximated_loop world candidates answers model sigma (cl # rest) errors sensitivity =
     and_then (getitem candidates cl) (\<lambda>wgt.
     and_then (getitem answers cl) (\<lambda>x.
     and_then (CliqueVector_domain (factor (mbi_env world)) (model_potentials model)) (\<lambda>domain.
       let bias = sqrt (2 / pi) * sigma * real (domain_size world domain cl);
           xest = f_datavector (factor (mbi_env world)) (GraphicalModel_project (mbi_env world) model cl)
       in and_then (broadcast2 (-) x xest) (\<lambda>diff.
            worst_approximated_loop world candidates answers model sigma rest
              (AList.update cl (wgt * (sum_list (map abs diff) - bias)) errors)
              (AList.update cl \<bar>wgt\<bar> sensitivity)))))"

definition worst_approximated ::
  "('a, 'd, 'f, 's, 'y) world \<Rightarrow> 's AIM \<Rightarrow> ('a clique, real) dict \<Rightarrow> ('a clique, real list) dict \<Rightarrow>
   ('a, 'f) GraphicalModel \<Rightarrow> real \<Rightarrow> error + ('a clique \<times> 's AIM)" where
  "worst_approximated world self candidates answers model rho_i =
     and_then (py_div 1 (2 * rho_i)) (\<lambda>q.
       let sigma = sqrt q in
       and_then (worst_approximated_loop world candidates answers model sigma (keys candidates) [] [])
         (\<lambda>(errors, sensitivity).
            and_then (py_max (map snd sensitivity)) (\<lambda>max_sensitivity.
              let epsilon = sqrt (8 * rho_i);
                  (cl, prng') = exponential_mechanism world (prng self) errors epsilon max_sensitivity
              in Inr (cl, self\<lparr>prng := prng'\<rparr>))))"

text \<open>\<^verbatim>\<open>zcdp_gaussian_mech\<close> charges the budget counter before it computes the noise scale.\<close>

definition zcdp_gaussian_mech ::
  "('a, 'd, 'f, 's, 'y) world \<Rightarrow> 's AIM \<Rightarrow> real list \<Rightarrow> real \<Rightarrow> real \<Rightarrow> error + (real list \<times> 's AIM)" where
  "zcdp_gaussian_mech world self val sensitivity rho_i =
     (let self1 = self\<lparr>rho_used := rho_used self + rho_i\<rparr> in
      and_then (py_div (sensitivity\<^sup>2) (2 * rho_i)) (\<lambda>q.
        let sigma = sqrt q;
            (noise, prng') = normal world (prng self1) sigma (length val)
        in and_then (broadcast2 (+) val noise) (\<lambda>y. Inr (y, self1\<lparr>prng := prng'\<rparr>))))"

text \<open>The loop of \<^verbatim>\<open>run\<close> over the initial cliques.\<close>

fun measure_initial ::
  "('a, 'd, 'f, 's, 'y) world \<Rightarrow> ('a, 'd) Dataset \<Rightarrow> real \<Rightarrow> 'a clique list \<Rightarrow> 's AIM \<Rightarrow>
   'a LinearMeasurement list \<Rightarrow> error + ('s AIM \<times> 'a LinearMeasurement list)" where
  "measure_initial world data rho_oneway_i [] self measurements = Inr (self, measurements)"
| "measure_initial world data rho_oneway_i (cl # rest) self measurements =
     (let x = data_project data cl in
      and_then (zcdp_gaussian_mech world self x 1 rho_oneway_i) (\<lambda>(y, self').
      and_then (py_div 1 (2 * rho_oneway_i)) (\<lambda>q.
        let std = sqrt q in
        measure_initial world data rho_oneway_i rest self'
          (measurements @ [\<lparr>noisy_measurement = y, M_clique = cl, stddev = std,
                            query = default_query world\<rparr>]))))"

text \<open>
  The body of the loop \<^verbatim>\<open>for t in range(iterations)\<close>. Its state is the mechanism object,
  the current model and the list of measurements.
\<close>

definition AIM_round ::
  "('a, 'd, 'f, 's, 'y) world \<Rightarrow> ('a, 'd) Dataset \<Rightarrow> ('a clique, real) dict \<Rightarrow>
   ('a clique, real list) dict \<Rightarrow> real \<Rightarrow> real \<Rightarrow>
   's AIM \<times> ('a, 'f) GraphicalModel \<times> 'a LinearMeasurement list \<Rightarrow>
   error + ('s AIM \<times> ('a, 'f) GraphicalModel \<times> 'a LinearMeasurement list)" where
  "AIM_round world data candidates answers rho_oneway_i rho_iters_i state =
     (case state of (self, model, measurements) \<Rightarrow>
      and_then (py_div (max_model_size self * rho_used self) (rho self)) (\<lambda>size_limit.
      and_then (filter_candidates world candidates model size_limit) (\<lambda>small_candidates.
      and_then (worst_approximated world self small_candidates answers model (rho_iters_i / 2))
        (\<lambda>(cl, self1).
          let n = domain_size world (data_domain data) cl;
              x = data_project data cl
          in
          and_then (zcdp_gaussian_mech world self1 x 1 (rho_iters_i / 2)) (\<lambda>(y, self2).
          and_then (py_div 1 (2 * rho_oneway_i)) (\<lambda>q.
            let std = sqrt q;
                measurements' = measurements @ [\<lparr>noisy_measurement = y, M_clique = cl, stddev = std,
                                                 query = default_query world\<rparr>];
                pcliques = set_order world (map M_clique measurements');
                potentials = expand world (model_potentials model) pcliques
            in
            and_then (mirror_descent (mbi_env world) (data_domain data) (Measurements measurements')
                        None (Some potentials) (message_passing_new world) (max_iters self2) None)
              (\<lambda>(model', trace). Inr (self2, model', measurements'))))))))"

fun AIM_rounds ::
  "('st \<Rightarrow> error + 'st) \<Rightarrow> nat \<Rightarrow> 'st \<Rightarrow> error + 'st" where
  "AIM_rounds body 0 state = Inr state"
| "AIM_rounds body (Suc n) state = and_then (body state) (\<lambda>state'. AIM_rounds body n state')"

text \<open>
  \<^verbatim>\<open>run\<close> up to the end of the loop of adaptive rounds: the result is the mechanism
  object, the model of the last round and the measurements taken.
\<close>

definition AIM_run_rounds ::
  "('a, 'd, 'f, 's, 'y) world \<Rightarrow> 's AIM \<Rightarrow> ('a, 'd) Dataset \<Rightarrow> ('a clique \<times> real) list \<Rightarrow>
   'a clique list option \<Rightarrow> error + ('s AIM \<times> ('a, 'f) GraphicalModel \<times> 'a LinearMeasurement list)" where
  "AIM_run_rounds world self data workload initial_cliques =
     (let default_rounds =
            (case rounds self of
               None \<Rightarrow> 16 * domain_len world (data_domain data)
             | Some r \<Rightarrow> if r = 0 then 16 * domain_len world (data_domain data) else r)
      in
      and_then (compile_workload (set_order world) workload) (\<lambda>candidates.
        let answers = foldl (\<lambda>acc cl. AList.update cl (data_project data cl) acc) [] (keys candidates);
            rho_oneway = rho self * 0.05;
            rho_iterations = rho self * 0.95;
            initial_cliques' =
              (case initial_cliques of
                 None \<Rightarrow> filter (\<lambda>cl. length cl = 1) (keys candidates)
               | Some [] \<Rightarrow> filter (\<lambda>cl. length cl = 1) (keys candidates)
               | Some (c # cs) \<Rightarrow> c # cs);
            oneway = filter (\<lambda>cl. length cl = 1) (keys candidates)
        in
        and_then (py_div rho_oneway (real (length oneway))) (\<lambda>rho_oneway_i.
        and_then (measure_initial world data rho_oneway_i initial_cliques' self []) (\<lambda>(self1, measurements).
        and_then (mirror_descent (mbi_env world) (data_domain data) (Measurements measurements)
                    None None (message_passing_new world) (max_iters self1) None) (\<lambda>(model, trace).
          let iterations = nat \<lfloor>real (length workload) / 4\<rfloor> in
          and_then (py_div rho_iterations (real iterations)) (\<lambda>rho_iters_i.
            AIM_rounds (AIM_round world data candidates answers rho_oneway_i rho_iters_i)
              iterations (self1, model, measurements)))))))"

text \<open>The whole of \<^verbatim>\<open>run\<close>: the final fit and the synthetic data; it returns the pair and the object.\<close>

definition AIM_run ::
  "('a, 'd, 'f, 's, 'y) world \<Rightarrow> 's AIM \<Rightarrow> ('a, 'd) Dataset \<Rightarrow> ('a clique \<times> real) list \<Rightarrow>
   nat option \<Rightarrow> 'a clique list option \<Rightarrow> error + ((('a, 'f) GraphicalModel \<times> 'y) \<times> 's AIM)" where
  "AIM_run world self data workload num_synth_rows initial_cliques =
     and_then (AIM_run_rounds world self data workload initial_cliques) (\<lambda>(self', model, measurements).
     and_then (mirror_descent (mbi_env world) (data_domain data) (Measurements measurements)
                 None None (message_passing_new world) (max_iters self') None) (\<lambda>(model', trace).
       let rows = (case num_synth_rows of
                     None \<Rightarrow> model_total model'
                   | Some r \<Rightarrow> if r = 0 then model_total model' else real r);
           synth = from_marginals world model' rows
       in Inr ((model', synth), self')))"

section \<open>Reference definitions\<close>

text \<open>
  Definitions that the statements below compare the code with, and concrete inputs on
  which it is evaluated. First the words of the specification for \<^verbatim>\<open>combine\<close>: each
  factor of the other vector is added into the first key that covers its clique, and is
  dropped when there is none.
\<close>

fun add_first ::
  "('a, 'd, 'f) factor_ops \<Rightarrow> ('a, 'f) clique_vector \<Rightarrow> 'a clique \<Rightarrow> 'f \<Rightarrow> ('a, 'f) clique_vector" where
  "add_first ops [] cl b = []"
| "add_first ops ((cl2, a) # rest) cl b =
     (if set cl \<subseteq> set cl2 then (cl2, f_add ops a b) # rest else (cl2, a) # add_first ops rest cl b)"

definition combine_spec ::
  "('a, 'd, 'f) factor_ops \<Rightarrow> ('a, 'f) clique_vector \<Rightarrow> ('a, 'f) clique_vector \<Rightarrow> ('a, 'f) clique_vector" where
  "combine_spec ops self other = foldl (\<lambda>acc (cl, b). add_first ops acc cl b) self other"

text \<open>Factor operations to evaluate with: a factor is a single number.\<close>

definition real_ops :: "(string, unit, real) factor_ops" where
  "real_ops = \<lparr>f_zeros = (\<lambda>d cl. 0), f_add = (+), f_add_scalar = (+), f_scale = (*), f_mul = (*),
     f_sum = (\<lambda>x. x), f_project = (\<lambda>f cl. f), f_datavector = (\<lambda>x. [x]), f_domain = (\<lambda>f. ()),
     domain_merge = (\<lambda>a b. ())\<rparr>"

text \<open>A clique is covered by a vector when one of the keys is a superset of it.\<close>

definition covered :: "('a, 'f) clique_vector \<Rightarrow> 'a clique \<Rightarrow> bool" where
  "covered self clique = (\<exists>cl\<in>set (keys self). set clique \<subseteq> set cl)"

text \<open>The weight that the dictionary of weights holds for a workload clique: the last one listed.\<close>

definition workload_weight :: "('a clique \<times> real) list \<Rightarrow> 'a clique \<Rightarrow> real" where
  "workload_weight workload wc = (case map_of (rev workload) wc of None \<Rightarrow> 0 | Some wt \<Rightarrow> wt)"

text \<open>The dictionary \<^verbatim>\<open>weights\<close> that \<^verbatim>\<open>compile_workload\<close> builds first.\<close>

definition weights_of :: "('a clique \<times> real) list \<Rightarrow> ('a clique, real) dict" where
  "weights_of workload = foldl (\<lambda>acc (cl, wt). AList.update cl wt acc) [] workload"

text \<open>
  The words of the specification for the total estimator: a measurement qualifies when
  its query returns the noisy vector itself (up to the tolerance of \<^verbatim>\<open>np.allclose\<close>);
  the variance of the sum of a qualifying measurement is its noise variance times its
  size, and the estimate is the mean of the sums weighted by the inverse variances.
\<close>

definition is_identity_query :: "'a LinearMeasurement \<Rightarrow> bool" where
  "is_identity_query M =
     (and_then (query M (noisy_measurement M)) (\<lambda>q. allclose q (noisy_measurement M)) = Inr True)"

definition measurement_variance :: "'a LinearMeasurement \<Rightarrow> real" where
  "measurement_variance M = (stddev M)\<^sup>2 * real (length (noisy_measurement M))"

definition inverse_variance_estimate :: "'a LinearMeasurement list \<Rightarrow> real" where
  "inverse_variance_estimate qs =
     (\<Sum>M\<leftarrow>qs. sum_list (noisy_measurement M) / measurement_variance M) /
     (\<Sum>M\<leftarrow>qs. 1 / measurement_variance M)"

text \<open>
  An instance of the external functions to evaluate mirror descent with: the loss is the
  sum of the squared marginals, its gradient twice the marginals.
\<close>

definition toy_mbi :: "(string, unit, real) mbi" where
  "toy_mbi = \<lparr>factor = real_ops,
     from_linear_measurements = (\<lambda>ms. \<lparr>loss_cliques = map M_clique ms,
        loss_call = (\<lambda>mu. sum_list (map (\<lambda>(cl, v). v * v) mu))\<rparr>),
     grad = (\<lambda>L mu. map (\<lambda>(cl, v). (cl, 2 * v)) mu),
     variable_elimination = (\<lambda>p attrs t. 0)\<rparr>"

text \<open>Two states of the mechanism object that differ at most in the budget counter and the generator.\<close>

definition same_config :: "'s AIM \<Rightarrow> 's AIM \<Rightarrow> bool" where
  "same_config self self' =
     (rho self' = rho self \<and> rounds self' = rounds self \<and> max_model_size self' = max_model_size self
      \<and> max_iters self' = max_iters self)"

text \<open>
  The one-way candidates, and the cliques measured in the initial round: the caller's
  list when it is given and not empty, the one-way candidates otherwise.
\<close>

definition oneway_cliques :: "('a clique, real) dict \<Rightarrow> 'a clique list" where
  "oneway_cliques candidates = filter (\<lambda>cl. length cl = 1) (keys candidates)"

definition initial_cliques_of :: "('a clique, real) dict \<Rightarrow> 'a clique list option \<Rightarrow> 'a clique list" where
  "initial_cliques_of candidates initial_cliques =
     (case initial_cliques of
        None \<Rightarrow> oneway_cliques candidates
      | Some [] \<Rightarrow> oneway_cliques candidates
      | Some (c # cs) \<Rightarrow> c # cs)"

text \<open>The object with another value of the \<^verbatim>\<open>rounds\<close> argument.\<close>

definition with_rounds :: "nat option \<Rightarrow> 's AIM \<Rightarrow> 's AIM" where
  "with_rounds r self = self\<lparr>rounds := r\<rparr>"

text \<open>
  A small world to run the mechanism in: factors are single numbers, attributes are
  numbered and binary, every cell of the data holds 10, the noise drawn is zero, and the
  state of the generator is the list of the noise scales it was asked for, in order; the
  exponential mechanism returns the last candidate, and the marginal oracle returns the
  potentials. The runs below use \<open>max_iters = 0\<close>, so that every fit returns its
  initial potentials.
\<close>

definition toy_world :: "(nat, unit, real, real list, unit) world" where
  "toy_world = \<lparr>mbi_env = \<lparr>factor = \<lparr>f_zeros = (\<lambda>d cl. 0), f_add = (+), f_add_scalar = (+),
       f_scale = (*), f_mul = (*), f_sum = (\<lambda>x. x), f_project = (\<lambda>f cl. f),
       f_datavector = (\<lambda>x. [x]), f_domain = (\<lambda>f. ()), domain_merge = (\<lambda>a b. ())\<rparr>,
     from_linear_measurements = (\<lambda>ms. \<lparr>loss_cliques = map M_clique ms,
        loss_call = (\<lambda>mu. sum_list (map (\<lambda>(cl, v). v * v) mu))\<rparr>),
     grad = (\<lambda>L mu. map (\<lambda>(cl, v). (cl, 2 * v)) mu),
     variable_elimination = (\<lambda>p attrs t. 0)\<rparr>,
     set_order = remdups,
     message_passing_new = (\<lambda>theta t. theta),
     domain_size = (\<lambda>d cl. 2 ^ length cl),
     domain_len = (\<lambda>d. 32),
     maximal_cliques = (\<lambda>d cls. cls),
     normal = (\<lambda>s sigma n. (replicate n 0, s @ [sigma])),
     exponential_mechanism = (\<lambda>s errors epsilon sens. (fst (last errors), s)),
     expand = (\<lambda>p cls. p @ map (\<lambda>cl. (cl, 0)) (filter (\<lambda>cl. cl \<notin> set (keys p)) cls)),
     from_marginals = (\<lambda>m rows. ()),
     default_query = Inr\<rparr>"

definition toy_data :: "(nat, unit) Dataset" where
  "toy_data = \<lparr>data_domain = (), data_project = (\<lambda>cl. replicate (2 ^ length cl) 10)\<rparr>"

text \<open>
  A workload of four cliques over the attributes 0, 1 and 2, its compiled candidates, the
  one-way cliques of 32 attributes as a caller's initial cliques, and what the run
  computes from them in the small world.
\<close>

definition toy_workload :: "(nat clique \<times> real) list" where
  "toy_workload = [([0, 1], 1), ([0, 2], 1), ([1, 2], 1), ([0, 1, 2], 1)]"

definition toy_initial_cliques :: "nat clique list" where
  "toy_initial_cliques = map (\<lambda>i. [i]) [0..<32]"

definition toy_candidates :: "(nat clique, real) dict" where
  "toy_candidates = [([0], 3), ([1], 3), ([2], 3), ([0, 1], 6), ([0, 2], 6), ([1, 2], 6), ([0, 1, 2], 9)]"

definition toy_answers :: "(nat clique, real list) dict" where
  "toy_answers = map (\<lambda>cl. (cl, replicate (2 ^ length cl) 10)) (keys toy_candidates)"

definition toy_measurements :: "real \<Rightarrow> nat clique list \<Rightarrow> nat LinearMeasurement list" where
  "toy_measurements std cls =
     map (\<lambda>cl. \<lparr>noisy_measurement = replicate (2 ^ length cl) 10, M_clique = cl,
                  stddev = std, query = Inr\<rparr>) cls"

definition toy_zeros :: "nat clique list \<Rightarrow> (nat, real) clique_vector" where
  "toy_zeros cls = map (\<lambda>cl. (cl, 0)) cls"

section \<open>Properties of the CliqueVector operations\<close>

lemma and_then_simps [simp]:
  "and_then (Inl e) k = Inl e" "and_then (Inr x) k = k x"
  by (simp_all add: and_then_def)

lemma getitem_Inr_iff: "getitem d k = Inr v \<longleftrightarrow> map_of d k = Some v"
  by (simp add: getitem_def split: option.splits)

lemma getitem_Inl_iff: "getitem d k = Inl e \<longleftrightarrow> e = KeyError \<and> k \<notin> set (keys d)"
proof (cases "map_of d k")
  case None
  have "k \<notin> fst ` set d" using None by (simp add: map_of_eq_None_iff)
  then show ?thesis unfolding getitem_def keys_def None by auto
next
  case (Some v)
  then have "k \<in> fst ` set d" by (metis map_of_eq_None_iff option.distinct(1))
  with Some show ?thesis by (simp add: getitem_def keys_def)
qed

lemma getitem_mem: "k \<in> set (keys d) \<Longrightarrow> \<exists>v. getitem d k = Inr v"
  by (cases "getitem d k") (auto simp: getitem_Inl_iff)

lemma project_loop_find:
  "project_loop ops self clique ks =
     (case find (\<lambda>cl. set clique \<subseteq> set cl) ks of
        None \<Rightarrow> Inl ValueError
      | Some cl \<Rightarrow> and_then (getitem self cl) (\<lambda>f. Inr (f_project ops f clique)))"
  by (induction ks) auto

lemma add_first_keys: "keys (add_first ops self cl b) = keys self"
  by (induction self) (auto simp: keys_def)

lemma update_add_first:
  "distinct (map fst self) \<Longrightarrow> find (\<lambda>k. set cl \<subseteq> set k) (map fst self) = Some cl2 \<Longrightarrow>
   map_of self cl2 = Some a \<Longrightarrow> AList.update cl2 (f_add ops a b) self = add_first ops self cl b"
proof (induction self)
  case Nil then show ?case by simp
next
  case (Cons p self)
  obtain k v where p: "p = (k, v)" by (cases p)
  show ?case
  proof (cases "set cl \<subseteq> set k")
    case True
    with Cons.prems p show ?thesis by auto
  next
    case False
    with Cons.prems p have "k \<noteq> cl2" by (auto dest: find_Some_iff[THEN iffD1])
    with Cons False p show ?thesis by auto
  qed
qed

lemma add_first_no_cover:
  "find (\<lambda>k. set cl \<subseteq> set k) (map fst self) = None \<Longrightarrow> add_first ops self cl b = self"
  by (induction self) (auto split: if_splits)

lemma combine_inner_eq:
  "combine_inner ops self other cl ks =
     (case find (\<lambda>k. set cl \<subseteq> set k) ks of
        None \<Rightarrow> Inr self
      | Some cl2 \<Rightarrow> and_then (getitem self cl2) (\<lambda>a.
           and_then (getitem other cl) (\<lambda>b. Inr (AList.update cl2 (f_add ops a b) self))))"
  by (induction ks) auto

lemma combine_inner_spec:
  assumes "distinct (keys self)" "map_of other cl = Some b"
  shows "combine_inner ops self other cl (keys self) = Inr (add_first ops self cl b)"
proof (cases "find (\<lambda>k. set cl \<subseteq> set k) (keys self)")
  case None
  then show ?thesis using add_first_no_cover[of cl self ops b]
    by (simp add: combine_inner_eq keys_def)
next
  case (Some cl2)
  then have "cl2 \<in> set (keys self)" by (auto simp: find_Some_iff)
  then obtain a where a: "getitem self cl2 = Inr a" using getitem_mem by fastforce
  then have "map_of self cl2 = Some a" by (simp add: getitem_Inr_iff)
  with assms Some a show ?thesis
    using update_add_first[of self cl cl2 a ops b]
    by (simp add: combine_inner_eq keys_def getitem_Inr_iff[THEN iffD2])
qed

lemma combine_outer_spec:
  "distinct (keys self) \<Longrightarrow> distinct (map fst ps) \<Longrightarrow> \<forall>(cl, b)\<in>set ps. map_of other cl = Some b \<Longrightarrow>
   combine_outer ops self other (map fst ps) = Inr (foldl (\<lambda>acc (cl, b). add_first ops acc cl b) self ps)"
proof (induction ps arbitrary: self)
  case Nil then show ?case by simp
next
  case (Cons p ps)
  obtain cl b where p: "p = (cl, b)" by (cases p)
  with Cons.prems have m: "map_of other cl = Some b" by auto
  have d: "distinct (keys (add_first ops self cl b))" using Cons.prems(1) by (simp add: add_first_keys)
  from Cons.prems have "distinct (map fst ps)" "\<forall>(cl, b)\<in>set ps. map_of other cl = Some b" by auto
  from Cons.IH[OF d this] show ?case
    using combine_inner_spec[OF Cons.prems(1) m, of ops] p by simp
qed

lemma CliqueVector_combine_spec:
  assumes "distinct (keys self)" "distinct (keys other)"
  shows "CliqueVector_combine ops self other = Inr (combine_spec ops self other)"
proof -
  have "\<forall>(cl, b)\<in>set other. map_of other cl = Some b"
    using assms(2) by (auto simp: keys_def)
  then show ?thesis
    using combine_outer_spec[OF assms(1), of other other ops] assms(2)
    by (simp add: CliqueVector_combine_def combine_spec_def keys_def)
qed

lemma find_None_covered: "find (\<lambda>cl. set clique \<subseteq> set cl) (keys self) = None \<longleftrightarrow> \<not> covered self clique"
  by (auto simp: find_None_iff covered_def)

lemma distinct_map_of_nth:
  "distinct (map fst d) \<Longrightarrow> i < length d \<Longrightarrow> map_of d (fst (d ! i)) = Some (snd (d ! i))"
  by (metis map_of_is_SomeI nth_mem prod.collapse)

text \<open>
  Claim C7. For a CliqueVector \<open>self\<close> and a clique, \<^verbatim>\<open>project\<close> returns the projection
  of the factor stored at the first key, in iteration order, that is a superset of the
  clique; it raises the coverage error (\<^verbatim>\<open>ValueError\<close>) when no key covers the clique,
  and it raises exactly then.
\<close>

theorem CliqueVector_project_coverage:
  assumes "distinct (keys self)"
  shows "(covered self clique \<longrightarrow>
           (\<exists>i<length self. set clique \<subseteq> set (fst (self ! i)) \<and>
              (\<forall>j<i. \<not> set clique \<subseteq> set (fst (self ! j))) \<and>
              CliqueVector_project ops self clique = Inr (f_project ops (snd (self ! i)) clique)))
       \<and> (\<not> covered self clique \<longrightarrow> CliqueVector_project ops self clique = Inl ValueError)
       \<and> ((\<exists>e. CliqueVector_project ops self clique = Inl e) \<longleftrightarrow> \<not> covered self clique)"
proof -
  have no: "CliqueVector_project ops self clique = Inl ValueError" if "\<not> covered self clique"
    using that find_None_covered[of clique self]
    by (simp add: CliqueVector_project_def project_loop_find)
  have yes: "\<exists>i<length self. set clique \<subseteq> set (fst (self ! i)) \<and>
              (\<forall>j<i. \<not> set clique \<subseteq> set (fst (self ! j))) \<and>
              CliqueVector_project ops self clique = Inr (f_project ops (snd (self ! i)) clique)"
    if "covered self clique"
  proof -
    from that obtain cl where cl: "find (\<lambda>cl. set clique \<subseteq> set cl) (keys self) = Some cl"
      using find_None_covered[of clique self] by (cases "find (\<lambda>cl. set clique \<subseteq> set cl) (keys self)") auto
    then obtain i where i: "i < length self" "set clique \<subseteq> set (fst (self ! i))" "cl = fst (self ! i)"
      "\<forall>j<i. \<not> set clique \<subseteq> set (fst (self ! j))"
      by (auto simp: find_Some_iff keys_def)
    have "map_of self cl = Some (snd (self ! i))"
      using distinct_map_of_nth[of self i] assms i by (simp add: keys_def)
    then have "getitem self cl = Inr (snd (self ! i))" by (simp add: getitem_Inr_iff)
    with cl have "CliqueVector_project ops self clique = Inr (f_project ops (snd (self ! i)) clique)"
      by (simp add: CliqueVector_project_def project_loop_find)
    with i show ?thesis by blast
  qed
  from no yes show ?thesis by (metis sum.distinct(1))
qed

theorem CliqueVector_project_coverage_witness:
  "distinct (keys [([''A'', ''B''], 1::real), ([''B'', ''C''], 2), ([''A'', ''B'', ''C''], 3)])
   \<and> covered [([''A'', ''B''], 1::real), ([''B'', ''C''], 2), ([''A'', ''B'', ''C''], 3)] [''C'']
   \<and> \<not> covered [([''A'', ''B''], 1::real), ([''B'', ''C''], 2), ([''A'', ''B'', ''C''], 3)] [''D'']
   \<and> CliqueVector_project real_ops [([''A'', ''B''], 1), ([''B'', ''C''], 2), ([''A'', ''B'', ''C''], 3)] [''C''] = Inr 2
   \<and> CliqueVector_project real_ops [([''A'', ''B''], 1), ([''B'', ''C''], 2), ([''A'', ''B'', ''C''], 3)] [''D'']
       = Inl ValueError"
proof -
  let ?V = "[([''A'', ''B''], 1::real), ([''B'', ''C''], 2), ([''A'', ''B'', ''C''], 3)]"
  have d: "distinct (keys ?V)" by (simp add: keys_def)
  have c: "covered ?V [''C'']" by (simp add: covered_def keys_def)
  have n: "\<not> covered ?V [''D'']" by (simp add: covered_def keys_def)
  have p: "CliqueVector_project real_ops ?V [''C''] = Inr 2"
    by (simp add: CliqueVector_project_def keys_def getitem_def real_ops_def)
  from CliqueVector_project_coverage[OF d, of "[''D'']" real_ops] n
  have "CliqueVector_project real_ops ?V [''D''] = Inl ValueError" by blast
  with d c n p show ?thesis by blast
qed

lemma foldl_add_first_keys:
  "keys (foldl (\<lambda>acc (cl, b). add_first ops acc cl b) self other) = keys self"
  by (induction other arbitrary: self) (auto simp: add_first_keys)

lemma combine_spec_keys: "keys (combine_spec ops self other) = keys self"
  by (simp add: combine_spec_def foldl_add_first_keys)

lemma add_first_uncovered: "\<not> covered self cl \<Longrightarrow> add_first ops self cl b = self"
  using add_first_no_cover[of cl self ops b] find_None_covered[of cl self] by (simp add: keys_def)

lemma covered_keys_cong: "keys v = keys w \<Longrightarrow> covered v cl = covered w cl"
  by (simp add: covered_def)

lemma foldl_add_first_filter:
  "keys acc = keys self \<Longrightarrow>
   foldl (\<lambda>acc (cl, b). add_first ops acc cl b) acc other =
   foldl (\<lambda>acc (cl, b). add_first ops acc cl b) acc (filter (\<lambda>(cl, b). covered self cl) other)"
proof (induction other arbitrary: acc)
  case Nil then show ?case by simp
next
  case (Cons p other)
  obtain cl b where p: "p = (cl, b)" by (cases p)
  have k: "keys (add_first ops acc cl b) = keys self" using Cons.prems by (simp add: add_first_keys)
  show ?case
  proof (cases "covered self cl")
    case True
    with Cons.IH[OF k] p show ?thesis by simp
  next
    case False
    then have "\<not> covered acc cl" using covered_keys_cong[OF Cons.prems] by simp
    then have "add_first ops acc cl b = acc" by (rule add_first_uncovered)
    with Cons.IH[OF Cons.prems] False p show ?thesis by simp
  qed
qed

lemma combine_spec_filter:
  "combine_spec ops self other = combine_spec ops self (filter (\<lambda>(cl, b). covered self cl) other)"
  using foldl_add_first_filter[of self self ops other] by (simp add: combine_spec_def)

lemma combine_spec_none_covered:
  "\<forall>cl\<in>set (keys other). \<not> covered self cl \<Longrightarrow> combine_spec ops self other = self"
proof -
  assume a: "\<forall>cl\<in>set (keys other). \<not> covered self cl"
  then have "filter (\<lambda>(cl, b). covered self cl) other = []"
    by (auto simp: filter_empty_conv keys_def)
  then show ?thesis using combine_spec_filter[of ops self other] by (simp add: combine_spec_def)
qed

text \<open>
  Claim C8. \<^verbatim>\<open>combine\<close> never raises; it adds each factor of \<open>other\<close> into the first
  key of \<open>self\<close> that covers its clique and keeps the keys of \<open>self\<close>; cliques of
  \<open>other\<close> without a covering key have no effect, so that the receiver is unchanged
  when none is covered, as for zeros over the key (A, B) combined with a vector over (C,).
\<close>

theorem CliqueVector_combine_first_cover:
  assumes "distinct (keys self)" "distinct (keys other)"
  shows "CliqueVector_combine ops self other = Inr (combine_spec ops self other)
       \<and> keys (combine_spec ops self other) = keys self
       \<and> combine_spec ops self other = combine_spec ops self (filter (\<lambda>(cl, b). covered self cl) other)
       \<and> ((\<forall>cl\<in>set (keys other). \<not> covered self cl) \<longrightarrow> CliqueVector_combine ops self other = Inr self)
       \<and> (C \<notin> {A, B} \<longrightarrow>
            CliqueVector_combine ops (CliqueVector_zeros ops d [[A, B]]) [([C], w)] =
            Inr (CliqueVector_zeros ops d [[A, B]]))"
proof -
  have 1: "CliqueVector_combine ops self other = Inr (combine_spec ops self other)"
    using assms by (rule CliqueVector_combine_spec)
  have 4: "CliqueVector_combine ops self other = Inr self" if "\<forall>cl\<in>set (keys other). \<not> covered self cl"
    using 1 combine_spec_none_covered[OF that, of ops] by simp
  have 5: "CliqueVector_combine ops (CliqueVector_zeros ops d [[A, B]]) [([C], w)] =
            Inr (CliqueVector_zeros ops d [[A, B]])" if "C \<notin> {A, B}"
    using that by (simp add: CliqueVector_combine_def CliqueVector_zeros_def keys_def)
  from 1 4 5 show ?thesis
    using combine_spec_keys[of ops self other] combine_spec_filter[of ops self other] by blast
qed

theorem CliqueVector_combine_first_cover_witness:
  "distinct (keys [([''A'', ''B''], 1::real), ([''B'', ''C''], 2)])
   \<and> distinct (keys [([''C''], 10::real), ([''D''], 20), ([''B''], 30)])
   \<and> CliqueVector_combine real_ops [([''A'', ''B''], 1), ([''B'', ''C''], 2)]
        [([''C''], 10), ([''D''], 20), ([''B''], 30)] = Inr [([''A'', ''B''], 31), ([''B'', ''C''], 12)]
   \<and> \<not> covered [([''A'', ''B''], 1::real), ([''B'', ''C''], 2)] [''D'']
   \<and> CliqueVector_combine real_ops [([''A'', ''B''], 1), ([''B'', ''C''], 2)] [([''D''], 20)]
        = Inr [([''A'', ''B''], 1), ([''B'', ''C''], 2)]
   \<and> ''C'' \<notin> {''A'', ''B''}
   \<and> CliqueVector_combine real_ops (CliqueVector_zeros real_ops () [[''A'', ''B'']]) [([''C''], 5)]
        = Inr [([''A'', ''B''], 0)]"
proof -
  let ?V = "[([''A'', ''B''], 1::real), ([''B'', ''C''], 2)]"
  let ?W = "[([''C''], 10::real), ([''D''], 20), ([''B''], 30)]"
  have dV: "distinct (keys ?V)" and dW: "distinct (keys ?W)" and dD: "distinct (keys [([''D''], 20::real)])"
    by (simp_all add: keys_def)
  have s: "combine_spec real_ops ?V ?W = [([''A'', ''B''], 31), ([''B'', ''C''], 12)]"
    by (simp add: combine_spec_def real_ops_def)
  have n: "\<forall>cl\<in>set (keys [([''D''], 20::real)]). \<not> covered ?V cl"
    by (simp add: covered_def keys_def)
  have c: "''C'' \<notin> {''A'', ''B''}" by simp
  have z: "CliqueVector_zeros real_ops () [[''A'', ''B'']] = [([''A'', ''B''], 0)]"
    by (simp add: CliqueVector_zeros_def real_ops_def)
  from CliqueVector_combine_first_cover[OF dV dW, of real_ops] s
  have 1: "CliqueVector_combine real_ops ?V ?W = Inr [([''A'', ''B''], 31), ([''B'', ''C''], 12)]" by simp
  from CliqueVector_combine_first_cover[OF dV dD, of real_ops] n
  have 2: "CliqueVector_combine real_ops ?V [([''D''], 20)] = Inr ?V" by blast
  from CliqueVector_combine_first_cover[OF dV dW, where ops = real_ops and C = "''C''" and A = "''A''"
      and B = "''B''" and d = "()" and w = 5] c z
  have 3: "CliqueVector_combine real_ops (CliqueVector_zeros real_ops () [[''A'', ''B'']]) [([''C''], 5)]
        = Inr [([''A'', ''B''], 0)]" by simp
  have n': "\<not> covered ?V [''D'']" by (simp add: covered_def keys_def)
  from dV dW 1 n' 2 c 3 show ?thesis by blast
qed

lemma keys_update: "set (keys (AList.update k v acc)) = insert k (set (keys acc))"
  by (simp add: keys_def dom_update)

lemma dict_comp_ok:
  "\<forall>k\<in>set ks. \<exists>v. g k = Inr v \<Longrightarrow>
   \<exists>r. dict_comp g ks acc = Inr r \<and> set (keys r) = set (keys acc) \<union> set ks"
proof (induction ks arbitrary: acc)
  case Nil then show ?case by simp
next
  case (Cons k ks)
  then obtain v where v: "g k = Inr v" by auto
  from Cons.prems have "\<forall>k\<in>set ks. \<exists>v. g k = Inr v" by simp
  from Cons.IH[OF this, of "AList.update k v acc"] v show ?case
    by (auto simp: keys_update)
qed

lemma dict_comp_fail:
  "\<forall>k\<in>set ks. g k = Inl KeyError \<or> (\<exists>v. g k = Inr v) \<Longrightarrow> \<exists>k\<in>set ks. g k = Inl KeyError \<Longrightarrow>
   dict_comp g ks acc = Inl KeyError"
proof (induction ks arbitrary: acc)
  case Nil then show ?case by simp
next
  case (Cons k ks)
  show ?case
  proof (cases "g k")
    case (Inl e)
    with Cons.prems(1) show ?thesis by auto
  next
    case (Inr v)
    with Cons.prems have "\<forall>k\<in>set ks. g k = Inl KeyError \<or> (\<exists>v. g k = Inr v)" "\<exists>k\<in>set ks. g k = Inl KeyError"
      by auto
    from Cons.IH[OF this] Inr show ?thesis by simp
  qed
qed

lemma sum_gen_ok:
  "\<forall>k\<in>set ks. \<exists>v. g k = Inr v \<Longrightarrow> \<exists>r. sum_gen g ks acc = Inr r"
proof (induction ks arbitrary: acc)
  case Nil then show ?case by simp
next
  case (Cons k ks)
  then obtain v where v: "g k = Inr v" by auto
  from Cons.prems have "\<forall>k\<in>set ks. \<exists>v. g k = Inr v" by simp
  from Cons.IH[OF this, of "acc + v"] v show ?case by auto
qed

lemma sum_gen_fail:
  "\<forall>k\<in>set ks. g k = Inl KeyError \<or> (\<exists>v. g k = Inr v) \<Longrightarrow> \<exists>k\<in>set ks. g k = Inl KeyError \<Longrightarrow>
   sum_gen g ks acc = Inl KeyError"
proof (induction ks arbitrary: acc)
  case Nil then show ?case by simp
next
  case (Cons k ks)
  show ?case
  proof (cases "g k")
    case (Inl e)
    with Cons.prems(1) show ?thesis by auto
  next
    case (Inr v)
    with Cons.prems have "\<forall>k\<in>set ks. g k = Inl KeyError \<or> (\<exists>v. g k = Inr v)" "\<exists>k\<in>set ks. g k = Inl KeyError"
      by auto
    from Cons.IH[OF this] Inr show ?thesis by simp
  qed
qed

text \<open>What one entry of the comprehension of \<open>__add__\<close> and of \<open>dot\<close> does.\<close>

lemma pair_lookup_cases:
  assumes "cl \<in> set (keys self)"
  shows "(cl \<in> set (keys other) \<longrightarrow>
            (\<exists>v. and_then (getitem self cl) (\<lambda>a. and_then (getitem other cl) (\<lambda>b. Inr (h a b))) = Inr v))
       \<and> (cl \<notin> set (keys other) \<longrightarrow>
            and_then (getitem self cl) (\<lambda>a. and_then (getitem other cl) (\<lambda>b. Inr (h a b))) = Inl KeyError)"
proof -
  from assms obtain a where a: "getitem self cl = Inr a" using getitem_mem by fastforce
  show ?thesis
  proof (cases "cl \<in> set (keys other)")
    case True
    then obtain b where "getitem other cl = Inr b" using getitem_mem by fastforce
    with a True show ?thesis by simp
  next
    case False
    then have "getitem other cl = Inl KeyError" by (simp add: getitem_Inl_iff)
    with a False show ?thesis by simp
  qed
qed

lemma CliqueVector_add_Vec_ok:
  assumes "set (keys self) \<subseteq> set (keys other)"
  shows "\<exists>r. CliqueVector_add ops self (Vec other) = Inr r \<and> set (keys r) = set (keys self)"
proof -
  let ?g = "\<lambda>cl. and_then (getitem self cl) (\<lambda>a. and_then (getitem other cl) (\<lambda>b. Inr (f_add ops a b)))"
  have "\<forall>k\<in>set (keys self). \<exists>v. ?g k = Inr v"
    using pair_lookup_cases[of _ self other "f_add ops"] assms by blast
  from dict_comp_ok[OF this, of "[]"] show ?thesis
    by (simp add: CliqueVector_add_def keys_def)
qed

lemma CliqueVector_add_Vec_fail:
  assumes "\<not> set (keys self) \<subseteq> set (keys other)"
  shows "CliqueVector_add ops self (Vec other) = Inl KeyError"
proof -
  let ?g = "\<lambda>cl. and_then (getitem self cl) (\<lambda>a. and_then (getitem other cl) (\<lambda>b. Inr (f_add ops a b)))"
  have 1: "\<forall>k\<in>set (keys self). ?g k = Inl KeyError \<or> (\<exists>v. ?g k = Inr v)"
    using pair_lookup_cases[of _ self other "f_add ops"] by blast
  have 2: "\<exists>k\<in>set (keys self). ?g k = Inl KeyError"
    using pair_lookup_cases[of _ self other "f_add ops"] assms by blast
  from dict_comp_fail[OF 1 2] show ?thesis by (simp add: CliqueVector_add_def)
qed

lemma CliqueVector_mul_ok:
  "\<exists>r. CliqueVector_mul ops self c = Inr r \<and> set (keys r) = set (keys self)"
proof -
  let ?g = "\<lambda>cl. and_then (getitem self cl) (\<lambda>f. Inr (f_scale ops c f))"
  have "\<forall>k\<in>set (keys self). \<exists>v. ?g k = Inr v"
  proof
    fix k assume "k \<in> set (keys self)"
    then obtain a where "getitem self k = Inr a" using getitem_mem by fastforce
    then show "\<exists>v. ?g k = Inr v" by simp
  qed
  from dict_comp_ok[OF this, of "[]"] show ?thesis
    by (simp add: CliqueVector_mul_def keys_def)
qed

lemma CliqueVector_dot_ok:
  assumes "set (keys self) \<subseteq> set (keys other)"
  shows "\<exists>x. CliqueVector_dot ops self other = Inr x"
proof -
  let ?g = "\<lambda>cl. and_then (getitem self cl) (\<lambda>a. and_then (getitem other cl)
             (\<lambda>b. Inr (f_sum ops (f_mul ops a b))))"
  have "\<forall>k\<in>set (keys self). \<exists>v. ?g k = Inr v"
    using pair_lookup_cases[of _ self other "\<lambda>a b. f_sum ops (f_mul ops a b)"] assms by blast
  from sum_gen_ok[OF this] show ?thesis by (simp add: CliqueVector_dot_def)
qed

lemma CliqueVector_dot_fail:
  assumes "\<not> set (keys self) \<subseteq> set (keys other)"
  shows "CliqueVector_dot ops self other = Inl KeyError"
proof -
  let ?g = "\<lambda>cl. and_then (getitem self cl) (\<lambda>a. and_then (getitem other cl)
             (\<lambda>b. Inr (f_sum ops (f_mul ops a b))))"
  have 1: "\<forall>k\<in>set (keys self). ?g k = Inl KeyError \<or> (\<exists>v. ?g k = Inr v)"
    using pair_lookup_cases[of _ self other "\<lambda>a b. f_sum ops (f_mul ops a b)"] by blast
  have 2: "\<exists>k\<in>set (keys self). ?g k = Inl KeyError"
    using pair_lookup_cases[of _ self other "\<lambda>a b. f_sum ops (f_mul ops a b)"] assms by blast
  from sum_gen_fail[OF 1 2] show ?thesis by (simp add: CliqueVector_dot_def)
qed

lemma CliqueVector_sub_Vec:
  "\<exists>neg. set (keys neg) = set (keys other) \<and>
     CliqueVector_sub ops self (Vec other) = CliqueVector_add ops self (Vec neg)"
  using CliqueVector_mul_ok[of ops other "- 1"] by (auto simp: CliqueVector_sub_def)

text \<open>
  Claim C9, as amended. Addition, subtraction and \<^verbatim>\<open>dot\<close> with another CliqueVector
  raise \<^verbatim>\<open>KeyError\<close> exactly when some key of the left operand is missing from the
  right operand. When every key of the left operand is present on the right they return
  a result over the left operand's keys, whatever other keys the right operand has.
\<close>

theorem CliqueVector_binary_ops_keys:
  "(\<not> set (keys self) \<subseteq> set (keys other) \<longrightarrow>
       CliqueVector_add ops self (Vec other) = Inl KeyError
     \<and> CliqueVector_sub ops self (Vec other) = Inl KeyError
     \<and> CliqueVector_dot ops self other = Inl KeyError)
   \<and> (set (keys self) \<subseteq> set (keys other) \<longrightarrow>
       (\<exists>r. CliqueVector_add ops self (Vec other) = Inr r \<and> set (keys r) = set (keys self))
     \<and> (\<exists>r. CliqueVector_sub ops self (Vec other) = Inr r \<and> set (keys r) = set (keys self))
     \<and> (\<exists>x. CliqueVector_dot ops self other = Inr x))"
proof -
  obtain neg where neg: "set (keys neg) = set (keys other)"
    "CliqueVector_sub ops self (Vec other) = CliqueVector_add ops self (Vec neg)"
    using CliqueVector_sub_Vec by blast
  show ?thesis
  proof (cases "set (keys self) \<subseteq> set (keys other)")
    case True
    with neg CliqueVector_add_Vec_ok[of self other ops] CliqueVector_add_Vec_ok[of self neg ops]
      CliqueVector_dot_ok[of self other ops]
    show ?thesis by simp
  next
    case False
    with neg CliqueVector_add_Vec_fail[of self other ops] CliqueVector_add_Vec_fail[of self neg ops]
      CliqueVector_dot_fail[of self other ops]
    show ?thesis by simp
  qed
qed

theorem CliqueVector_binary_ops_keys_witness:
  "\<not> set (keys [([''A''], 1::real), ([''B''], 2)]) \<subseteq> set (keys [([''A''], 5::real)])
   \<and> CliqueVector_add real_ops [([''A''], 1), ([''B''], 2)] (Vec [([''A''], 5)]) = Inl KeyError
   \<and> CliqueVector_sub real_ops [([''A''], 1), ([''B''], 2)] (Vec [([''A''], 5)]) = Inl KeyError
   \<and> CliqueVector_dot real_ops [([''A''], 1), ([''B''], 2)] [([''A''], 5)] = Inl KeyError
   \<and> set (keys [([''A''], 5::real)]) \<subseteq> set (keys [([''A''], 1::real), ([''B''], 2)])
   \<and> (\<exists>r. CliqueVector_add real_ops [([''A''], 5)] (Vec [([''A''], 1), ([''B''], 2)]) = Inr r
          \<and> set (keys r) = set (keys [([''A''], 5::real)]))"
proof -
  have n: "\<not> set (keys [([''A''], 1::real), ([''B''], 2)]) \<subseteq> set (keys [([''A''], 5::real)])"
    by (simp add: keys_def)
  have y: "set (keys [([''A''], 5::real)]) \<subseteq> set (keys [([''A''], 1::real), ([''B''], 2)])"
    by (simp add: keys_def)
  from n y
    CliqueVector_binary_ops_keys[of "[([''A''], 1::real), ([''B''], 2)]" "[([''A''], 5)]" real_ops]
    CliqueVector_binary_ops_keys[of "[([''A''], 5::real)]" "[([''A''], 1), ([''B''], 2)]" real_ops]
  show ?thesis by blast
qed

text \<open>
  Claim C9 as stated fails: the key sets below differ, and all three operations return
  a result.
\<close>

theorem CliqueVector_key_sets_counterexample:
  "set (keys [([''A''], 5::real)]) \<noteq> set (keys [([''A''], 1::real), ([''B''], 2)])
   \<and> CliqueVector_add real_ops [([''A''], 5)] (Vec [([''A''], 1), ([''B''], 2)]) = Inr [([''A''], 6)]
   \<and> CliqueVector_sub real_ops [([''A''], 5)] (Vec [([''A''], 1), ([''B''], 2)]) = Inr [([''A''], 4)]
   \<and> CliqueVector_dot real_ops [([''A''], 5)] [([''A''], 1), ([''B''], 2)] = Inr 5"
  by (simp add: keys_def CliqueVector_add_def CliqueVector_sub_def CliqueVector_mul_def
      CliqueVector_dot_def getitem_def real_ops_def)

section \<open>Properties of workload compilation\<close>

lemma combinations_iff: "c \<in> set (combinations xs r) \<longleftrightarrow> subseq c xs \<and> length c = r"
proof (induction xs r arbitrary: c rule: combinations.induct)
  case (1 xs) then show ?case by auto
next
  case (2 r) then show ?case by auto
next
  case (3 x xs r)
  show ?case
  proof (cases c)
    case Nil then show ?thesis using 3 by auto
  next
    case (Cons y ys)
    then show ?thesis using 3 by (auto dest: subseq_Cons')
  qed
qed

lemma set_powerset: "set (powerset s) = {c. c \<noteq> [] \<and> subseq c s}"
proof -
  have "c \<in> set (powerset s) \<longleftrightarrow> c \<noteq> [] \<and> subseq c s" for c
  proof -
    have "c \<in> set (powerset s) \<longleftrightarrow> (\<exists>r. 1 \<le> r \<and> r \<le> length s \<and> subseq c s \<and> length c = r)"
      by (auto simp: powerset_def combinations_iff)
    also have "\<dots> \<longleftrightarrow> c \<noteq> [] \<and> subseq c s"
      using list_emb_length[of "(=)" c s] by (cases c) auto
    finally show ?thesis .
  qed
  then show ?thesis by blast
qed

lemma set_downward_closure:
  assumes "set_iteration set_iter"
  shows "set (downward_closure set_iter Ws) = {c. c \<noteq> [] \<and> (\<exists>wc\<in>set Ws. subseq c wc)}"
    and "distinct (downward_closure set_iter Ws)"
    and "sorted (map length (downward_closure set_iter Ws))"
  using assms by (auto simp: downward_closure_def set_iteration_def set_powerset sorted_sort_key)

lemma update_fresh: "k \<notin> fst ` set al \<Longrightarrow> AList.update k v al = al @ [(k, v)]"
  by (induction al) auto

lemma dict_comp_total:
  "\<forall>k\<in>set ks. g k = Inr (f k) \<Longrightarrow> distinct ks \<Longrightarrow> set ks \<inter> fst ` set acc = {} \<Longrightarrow>
   dict_comp g ks acc = Inr (acc @ map (\<lambda>k. (k, f k)) ks)"
proof (induction ks arbitrary: acc)
  case Nil then show ?case by simp
next
  case (Cons k ks)
  have u: "AList.update k (f k) acc = acc @ [(k, f k)]"
    using Cons.prems(3) by (intro update_fresh) auto
  have "dict_comp g ks (acc @ [(k, f k)]) = Inr ((acc @ [(k, f k)]) @ map (\<lambda>k. (k, f k)) ks)"
    using Cons.prems by (intro Cons.IH) auto
  with u Cons.prems(1) show ?case by simp
qed

lemma sum_gen_total:
  "\<forall>k\<in>set ks. g k = Inr (f k) \<Longrightarrow> sum_gen g ks acc = Inr (acc + sum_list (map f ks))"
  by (induction ks arbitrary: acc) (auto simp: add.assoc)

lemma weights_map_of:
  "map_of (foldl (\<lambda>acc (cl, wt). AList.update cl wt acc) acc workload) = map_of acc ++ map_of (rev workload)"
  by (induction workload arbitrary: acc) (auto simp: update_conv' map_add_def fun_eq_iff split: option.splits)

lemma weights_keys:
  "fst ` set (foldl (\<lambda>acc (cl, wt). AList.update cl wt acc) acc workload) = fst ` set acc \<union> fst ` set workload"
proof (induction workload arbitrary: acc)
  case Nil then show ?case by simp
next
  case (Cons p workload)
  obtain cl wt where p: "p = (cl, wt)" by (cases p)
  have "fst ` set (AList.update cl wt acc) = insert cl (fst ` set acc)" by (simp add: dom_update)
  with Cons.IH[of "AList.update cl wt acc"] p show ?case by simp
qed

lemma weights_distinct:
  "distinct (map fst acc) \<Longrightarrow> distinct (map fst (foldl (\<lambda>acc (cl, wt). AList.update cl wt acc) acc workload))"
  by (induction workload arbitrary: acc) (auto simp: distinct_update)

lemma weights_of_distinct:
  "distinct (map fst (acc @ workload)) \<Longrightarrow>
   foldl (\<lambda>acc (cl, wt). AList.update cl wt acc) acc workload = acc @ workload"
proof (induction workload arbitrary: acc)
  case Nil then show ?case by simp
next
  case (Cons p workload)
  obtain cl wt where p: "p = (cl, wt)" by (cases p)
  have "AList.update cl wt acc = acc @ [(cl, wt)]" using Cons.prems p by (intro update_fresh) auto
  moreover have "distinct (map fst ((acc @ [(cl, wt)]) @ workload))" using Cons.prems p by simp
  ultimately show ?case using Cons.IH[of "acc @ [(cl, wt)]"] p by simp
qed

lemma weights_of_props:
  "distinct (keys (weights_of workload))"
  "set (keys (weights_of workload)) = fst ` set workload"
  "map_of (weights_of workload) = map_of (rev workload)"
  "distinct (map fst workload) \<Longrightarrow> weights_of workload = workload"
  using weights_distinct[of "[]" workload] weights_keys[of "[]" workload]
    weights_map_of[of "[]" workload] weights_of_distinct[of "[]" workload]
  by (simp_all add: weights_of_def keys_def)

lemma score_value:
  "sum_gen (\<lambda>wc. and_then (getitem (weights_of workload) wc)
       (\<lambda>wt. Inr (wt * real (card (set cl \<inter> set wc))))) (keys (weights_of workload)) 0 =
   Inr (\<Sum>wc\<in>fst ` set workload. workload_weight workload wc * real (card (set cl \<inter> set wc)))"
proof -
  let ?W = "weights_of workload"
  let ?g = "\<lambda>wc. and_then (getitem ?W wc) (\<lambda>wt. Inr (wt * real (card (set cl \<inter> set wc))))"
  let ?f = "\<lambda>wc. workload_weight workload wc * real (card (set cl \<inter> set wc))"
  have "\<forall>k\<in>set (keys ?W). ?g k = Inr (?f k)"
  proof
    fix k assume "k \<in> set (keys ?W)"
    then obtain v where v: "getitem ?W k = Inr v" using getitem_mem by fastforce
    then have "map_of (rev workload) k = Some v"
      by (simp add: getitem_Inr_iff weights_of_props(3))
    then have "workload_weight workload k = v" by (simp add: workload_weight_def)
    with v show "?g k = Inr (?f k)" by simp
  qed
  from sum_gen_total[OF this, of 0]
  have "sum_gen ?g (keys ?W) 0 = Inr (sum_list (map ?f (keys ?W)))" by simp
  also have "sum_list (map ?f (keys ?W)) = sum ?f (set (keys ?W))"
    using weights_of_props(1)[of workload] by (rule sum_list_distinct_conv_sum_set)
  finally show ?thesis by (simp add: weights_of_props(2))
qed

lemma compile_workload_eq:
  assumes "set_iteration set_iter"
  shows "compile_workload set_iter workload =
     Inr (map (\<lambda>c. (c, \<Sum>wc\<in>fst ` set workload. workload_weight workload wc * real (card (set c \<inter> set wc))))
            (downward_closure set_iter (keys (weights_of workload))))"
proof -
  let ?W = "weights_of workload"
  let ?score = "\<lambda>cl. sum_gen (\<lambda>wc. and_then (getitem ?W wc)
       (\<lambda>wt. Inr (wt * real (card (set cl \<inter> set wc))))) (keys ?W) 0"
  let ?f = "\<lambda>c. \<Sum>wc\<in>fst ` set workload. workload_weight workload wc * real (card (set c \<inter> set wc))"
  let ?D = "downward_closure set_iter (keys ?W)"
  have "\<forall>c\<in>set ?D. ?score c = Inr (?f c)" by (simp add: score_value)
  moreover have "distinct ?D" using assms by (rule set_downward_closure(2))
  ultimately have "dict_comp ?score ?D [] = Inr ([] @ map (\<lambda>c. (c, ?f c)) ?D)"
    by (intro dict_comp_total) auto
  then show ?thesis by (simp add: compile_workload_def weights_of_def Let_def)
qed

lemma sum_distinct_workload:
  assumes "distinct (map fst workload)"
  shows "(\<Sum>wc\<in>fst ` set workload. workload_weight workload wc * h wc) = (\<Sum>(wc, wt)\<leftarrow>workload. wt * h wc)"
proof -
  have w: "workload_weight workload (fst p) = snd p" if "p \<in> set workload" for p
  proof -
    have "map_of (rev workload) (fst p) = Some (snd p)"
      using assms that by (intro map_of_is_SomeI) (auto simp: rev_map[symmetric])
    then show ?thesis by (simp add: workload_weight_def)
  qed
  have "(\<Sum>wc\<in>fst ` set workload. workload_weight workload wc * h wc)
        = (\<Sum>wc\<leftarrow>map fst workload. workload_weight workload wc * h wc)"
    using sum_list_distinct_conv_sum_set[OF assms, of "\<lambda>wc. workload_weight workload wc * h wc"]
    by simp
  also have "\<dots> = (\<Sum>p\<leftarrow>workload. snd p * h (fst p))"
    using w by (simp add: comp_def cong: map_cong)
  also have "\<dots> = (\<Sum>(wc, wt)\<leftarrow>workload. wt * h wc)"
    by (induction workload) auto
  finally show ?thesis .
qed

lemma map_of_map_key: "distinct ks \<Longrightarrow> map_of (map (\<lambda>k. (k, f k)) ks) = (\<lambda>k. if k \<in> set ks then Some (f k) else None)"
  by (induction ks) (auto simp: fun_eq_iff)

lemma powerset_pair: "powerset [A, B] = [[A], [B], [A, B]]"
  by (simp add: powerset_def upt_rec)

lemma example_scores:
  assumes "A \<noteq> B"
  shows "(\<lambda>k. if k \<in> {c. c \<noteq> [] \<and> subseq c [A, B]}
              then Some (\<Sum>wc\<in>fst ` set [([A, B], 1::real)].
                     workload_weight [([A, B], 1)] wc * real (card (set k \<inter> set wc)))
              else None) = [[A] \<mapsto> 1, [B] \<mapsto> 1, [A, B] \<mapsto> 2]"
proof -
  have s: "{c. c \<noteq> [] \<and> subseq c [A, B]} = {[A], [B], [A, B]}"
    using set_powerset[of "[A, B]"] by (simp add: powerset_pair)
  have c: "card {A, B} = 2" using assms by simp
  show ?thesis unfolding s using assms c
    by (auto simp: fun_eq_iff workload_weight_def)
qed

text \<open>
  Claim C6. For every workload \<^verbatim>\<open>compile_workload\<close> returns a dictionary whose keys are
  exactly the non-empty sub-tuples of the workload cliques, each once and in order of
  increasing length, and whose value at a candidate is the sum over the workload cliques
  of the clique's weight times the number of attributes it shares with the candidate
  (a clique listed several times counts once, with the weight listed last). For the
  workload [((A, B), 1.0)] the result is {(A,): 1.0, (B,): 1.0, (A, B): 2.0}.
\<close>

theorem compile_workload_scores:
  assumes "set_iteration set_iter"
  shows "\<exists>cands. compile_workload set_iter workload = Inr cands
     \<and> distinct (keys cands)
     \<and> set (keys cands) = {c. c \<noteq> [] \<and> (\<exists>wc\<in>fst ` set workload. subseq c wc)}
     \<and> sorted (map length (keys cands))
     \<and> (\<forall>c\<in>set (keys cands). map_of cands c =
           Some (\<Sum>wc\<in>fst ` set workload. workload_weight workload wc * real (card (set c \<inter> set wc))))
     \<and> (distinct (map fst workload) \<longrightarrow>
          (\<forall>c\<in>set (keys cands). map_of cands c =
             Some (\<Sum>(wc, wt)\<leftarrow>workload. wt * real (card (set c \<inter> set wc)))))
     \<and> (A \<noteq> B \<and> workload = [([A, B], 1)] \<longrightarrow> map_of cands = [[A] \<mapsto> 1, [B] \<mapsto> 1, [A, B] \<mapsto> 2])"
proof -
  let ?f = "\<lambda>c. \<Sum>wc\<in>fst ` set workload. workload_weight workload wc * real (card (set c \<inter> set wc))"
  let ?D = "downward_closure set_iter (keys (weights_of workload))"
  let ?cands = "map (\<lambda>c. (c, ?f c)) ?D"
  have r: "compile_workload set_iter workload = Inr ?cands"
    using assms by (rule compile_workload_eq)
  have k: "keys ?cands = ?D" by (simp add: keys_def comp_def)
  have d: "distinct ?D" using assms by (rule set_downward_closure(2))
  have s: "set ?D = {c. c \<noteq> [] \<and> (\<exists>wc\<in>fst ` set workload. subseq c wc)}"
    using set_downward_closure(1)[OF assms, of "keys (weights_of workload)"]
    by (simp add: weights_of_props(2))
  have o: "sorted (map length ?D)" using assms by (rule set_downward_closure(3))
  have m: "map_of ?cands = (\<lambda>k. if k \<in> set ?D then Some (?f k) else None)"
    using d by (rule map_of_map_key)
  have v: "\<forall>c\<in>set (keys ?cands). map_of ?cands c = Some (?f c)"
    unfolding k m by simp
  have v': "\<forall>c\<in>set (keys ?cands). map_of ?cands c =
             Some (\<Sum>(wc, wt)\<leftarrow>workload. wt * real (card (set c \<inter> set wc)))"
    if "distinct (map fst workload)"
    using v sum_distinct_workload[OF that] by simp
  have e: "map_of ?cands = [[A] \<mapsto> 1, [B] \<mapsto> 1, [A, B] \<mapsto> 2]" if "A \<noteq> B \<and> workload = [([A, B], 1)]"
  proof -
    from that have w: "workload = [([A, B], 1)]" and ab: "A \<noteq> B" by simp_all
    have "set ?D = {c. c \<noteq> [] \<and> subseq c [A, B]}" using s unfolding w by simp
    then show ?thesis unfolding m using example_scores[OF ab] unfolding w by simp
  qed
  show ?thesis
    apply (rule exI[of _ ?cands])
    using r d s o v v' e unfolding k by blast
qed

theorem compile_workload_scores_witness:
  "set_iteration (remdups :: string clique list \<Rightarrow> string clique list)
   \<and> distinct (map fst [([''A'', ''B''], 1::real)])
   \<and> ''A'' \<noteq> ''B''
   \<and> (\<exists>cands. compile_workload remdups [([''A'', ''B''], 1)] = Inr cands
        \<and> map_of cands = [[''A''] \<mapsto> 1, [''B''] \<mapsto> 1, [''A'', ''B''] \<mapsto> 2]
        \<and> map_of cands [''A'', ''B''] = Some (1 * real (card (set [''A'', ''B''] \<inter> set [''A'', ''B'']))))"
proof -
  have i: "set_iteration (remdups :: string clique list \<Rightarrow> string clique list)"
    by (simp add: set_iteration_def)
  have d: "distinct (map fst [([''A'', ''B''], 1::real)])" by simp
  have n: "''A'' \<noteq> ''B''" by simp
  from compile_workload_scores[OF i, of "[([''A'', ''B''], 1)]" "''A''" "''B''"]
  obtain cands where c: "compile_workload remdups [([''A'', ''B''], 1)] = Inr cands"
    "map_of cands = [[''A''] \<mapsto> 1, [''B''] \<mapsto> 1, [''A'', ''B''] \<mapsto> 2]"
    by auto
  then have "map_of cands [''A'', ''B''] = Some (1 * real (card (set [''A'', ''B''] \<inter> set [''A'', ''B''])))"
    by simp
  with i d n c show ?thesis by blast
qed

section \<open>Properties of the total estimator\<close>

lemma mvut_loop_filter:
  "mvut_loop ms es vs =
     (es @ map (\<lambda>M. sum_list (noisy_measurement M)) (filter is_identity_query ms),
      vs @ map measurement_variance (filter is_identity_query ms))"
proof (induction ms arbitrary: es vs)
  case Nil then show ?case by simp
next
  case (Cons M ms)
  show ?case
  proof (cases "and_then (query M (noisy_measurement M)) (\<lambda>q. allclose q (noisy_measurement M))")
    case (Inl e)
    then have "\<not> is_identity_query M" by (simp add: is_identity_query_def)
    with Inl Cons show ?thesis by (simp add: Let_def)
  next
    case (Inr b)
    then have "is_identity_query M = b" by (simp add: is_identity_query_def)
    with Inr Cons show ?thesis by (simp add: Let_def measurement_variance_def)
  qed
qed

lemma map2_same: "map2 h (map f xs) (map g xs) = map (\<lambda>x. h (f x) (g x)) xs"
  by (induction xs) auto

lemma mvut_eq:
  "minimum_variance_unbiased_total ms =
     (if filter is_identity_query ms = [] then 1
      else max 1 (inverse_variance_estimate (filter is_identity_query ms)))"
  by (simp add: minimum_variance_unbiased_total_def mvut_loop_filter Let_def map2_same
      inverse_variance_estimate_def comp_def)

lemma identity_query_qualifies: "query M = Inr \<Longrightarrow> is_identity_query M"
  by (simp add: is_identity_query_def allclose_def list_all2_same isclose_def)

lemma weighted_mean_arith:
  fixes n1 n2 :: real
  assumes "0 < n1" "0 < n2"
  shows "(100 / (2\<^sup>2 * n1) + 110 / (4\<^sup>2 * n2)) / (1 / (2\<^sup>2 * n1) + 1 / (4\<^sup>2 * n2)) =
         (400 * n2 + 110 * n1) / (4 * n2 + n1)"
proof -
  have a: "100 / (2\<^sup>2 * n1) + 110 / (4\<^sup>2 * n2) = (400 * n2 + 110 * n1) / (16 * n1 * n2)"
    using assms by (simp add: field_simps)
  have b: "1 / (2\<^sup>2 * n1) + 1 / (4\<^sup>2 * n2) = (4 * n2 + n1) / (16 * n1 * n2)"
    using assms by (simp add: field_simps)
  have c: "16 * n1 * n2 \<noteq> 0" using assms by simp
  show ?thesis unfolding a b using c by simp
qed

lemma two_measurements_estimate:
  assumes "query M1 = Inr" "query M2 = Inr"
    "sum_list (noisy_measurement M1) = 100" "stddev M1 = 2"
    "sum_list (noisy_measurement M2) = 110" "stddev M2 = 4"
    "noisy_measurement M1 \<noteq> []" "noisy_measurement M2 \<noteq> []"
  shows "minimum_variance_unbiased_total [M1, M2] =
           (400 * real (length (noisy_measurement M2)) + 110 * real (length (noisy_measurement M1))) /
           (4 * real (length (noisy_measurement M2)) + real (length (noisy_measurement M1)))"
proof -
  let ?n1 = "real (length (noisy_measurement M1))" and ?n2 = "real (length (noisy_measurement M2))"
  have p: "0 < ?n1" "0 < ?n2" using assms(7,8) by simp_all
  have q: "filter is_identity_query [M1, M2] = [M1, M2]"
    using assms(1,2) by (simp add: identity_query_qualifies)
  have e: "inverse_variance_estimate [M1, M2] = (400 * ?n2 + 110 * ?n1) / (4 * ?n2 + ?n1)"
    using weighted_mean_arith[OF p] assms(3-6)
    by (simp add: inverse_variance_estimate_def measurement_variance_def)
  have "1 * (4 * ?n2 + ?n1) \<le> 400 * ?n2 + 110 * ?n1" using p by simp
  moreover have "0 < 4 * ?n2 + ?n1" using p by (intro add_pos_pos) simp_all
  ultimately have "1 \<le> (400 * ?n2 + 110 * ?n1) / (4 * ?n2 + ?n1)"
    by (simp only: le_divide_eq if_True)
  with q e show ?thesis by (simp add: mvut_eq)
qed

text \<open>
  Claim C5, as amended. \<^verbatim>\<open>minimum_variance_unbiased_total\<close> keeps the measurements whose
  query returns the noisy vector itself, combines their sums with inverse-variance
  weights, where the variance of a sum is the squared standard deviation times the size
  of the measurement, and returns that estimate floored at 1, or exactly 1 when no
  measurement qualifies. Two identity measurements with sums 100 and 110 and standard
  deviations 2 and 4, of sizes n1 and n2, combine to (400 n2 + 110 n1) / (4 n2 + n1),
  which is 102 when the sizes are equal. The statement is about measurements of non-zero
  variance: division by zero is not an error in NumPy and is outside the model.
\<close>

theorem minimum_variance_unbiased_total_estimate:
  assumes "\<forall>M\<in>set ms. is_identity_query M \<longrightarrow> stddev M \<noteq> 0 \<and> noisy_measurement M \<noteq> []"
  shows "minimum_variance_unbiased_total ms =
           (if filter is_identity_query ms = [] then 1
            else max 1 (inverse_variance_estimate (filter is_identity_query ms)))
       \<and> 1 \<le> minimum_variance_unbiased_total ms
       \<and> ((\<forall>M\<in>set ms. \<not> is_identity_query M) \<longrightarrow> minimum_variance_unbiased_total ms = 1)
       \<and> (ms = [M1, M2] \<and> query M1 = Inr \<and> query M2 = Inr
            \<and> sum_list (noisy_measurement M1) = 100 \<and> stddev M1 = 2
            \<and> sum_list (noisy_measurement M2) = 110 \<and> stddev M2 = 4 \<longrightarrow>
          minimum_variance_unbiased_total ms =
            (400 * real (length (noisy_measurement M2)) + 110 * real (length (noisy_measurement M1))) /
            (4 * real (length (noisy_measurement M2)) + real (length (noisy_measurement M1)))
          \<and> (length (noisy_measurement M1) = length (noisy_measurement M2) \<longrightarrow>
               minimum_variance_unbiased_total ms = 102))"
proof -
  have 1: "minimum_variance_unbiased_total ms =
           (if filter is_identity_query ms = [] then 1
            else max 1 (inverse_variance_estimate (filter is_identity_query ms)))"
    by (rule mvut_eq)
  have 2: "1 \<le> minimum_variance_unbiased_total ms" by (simp add: mvut_eq)
  have 3: "minimum_variance_unbiased_total ms = 1" if "\<forall>M\<in>set ms. \<not> is_identity_query M"
    using that by (simp add: mvut_eq filter_empty_conv)
  have 4: "minimum_variance_unbiased_total ms =
            (400 * real (length (noisy_measurement M2)) + 110 * real (length (noisy_measurement M1))) /
            (4 * real (length (noisy_measurement M2)) + real (length (noisy_measurement M1)))
          \<and> (length (noisy_measurement M1) = length (noisy_measurement M2) \<longrightarrow>
               minimum_variance_unbiased_total ms = 102)"
    if h: "ms = [M1, M2] \<and> query M1 = Inr \<and> query M2 = Inr
            \<and> sum_list (noisy_measurement M1) = 100 \<and> stddev M1 = 2
            \<and> sum_list (noisy_measurement M2) = 110 \<and> stddev M2 = 4"
  proof -
    from h have i: "is_identity_query M1" "is_identity_query M2"
      by (simp_all add: identity_query_qualifies)
    with assms h have ne: "noisy_measurement M1 \<noteq> []" "noisy_measurement M2 \<noteq> []" by simp_all
    have e: "minimum_variance_unbiased_total [M1, M2] =
            (400 * real (length (noisy_measurement M2)) + 110 * real (length (noisy_measurement M1))) /
            (4 * real (length (noisy_measurement M2)) + real (length (noisy_measurement M1)))"
      using h ne by (intro two_measurements_estimate) simp_all
    have "minimum_variance_unbiased_total [M1, M2] = 102"
      if "length (noisy_measurement M1) = length (noisy_measurement M2)"
      using e ne that by (simp add: field_simps)
    with e h show ?thesis by simp
  qed
  from 1 2 3 4 show ?thesis by blast
qed

theorem minimum_variance_unbiased_total_estimate_witness:
  "minimum_variance_unbiased_total
     [\<lparr>noisy_measurement = [60, 40], M_clique = [''A''], stddev = 2, query = Inr\<rparr>,
      \<lparr>noisy_measurement = [70, 40], M_clique = [''B''], stddev = 4, query = Inr\<rparr>] = 102
   \<and> is_identity_query \<lparr>noisy_measurement = [60, 40], M_clique = [''A''], stddev = 2, query = Inr\<rparr>
   \<and> \<not> is_identity_query \<lparr>noisy_measurement = [60, 40], M_clique = [''A''], stddev = 2,
          query = (\<lambda>y. Inr (map ((*) 2) y))\<rparr>
   \<and> minimum_variance_unbiased_total
       [\<lparr>noisy_measurement = [60, 40], M_clique = [''A''], stddev = 2, query = (\<lambda>y. Inr (map ((*) 2) y))\<rparr>] = 1"
proof -
  let ?M1 = "\<lparr>noisy_measurement = [60, 40], M_clique = [''A''], stddev = 2, query = Inr\<rparr>"
  let ?M2 = "\<lparr>noisy_measurement = [70, 40], M_clique = [''B''], stddev = 4, query = Inr\<rparr>"
  let ?M3 = "\<lparr>noisy_measurement = [60, 40], M_clique = [''A''], stddev = 2,
          query = (\<lambda>y. Inr (map ((*) 2) y))\<rparr>"
  have a: "\<forall>M\<in>set [?M1, ?M2]. is_identity_query M \<longrightarrow> stddev M \<noteq> 0 \<and> noisy_measurement M \<noteq> []"
    by simp
  have b: "\<forall>M\<in>set [?M3]. is_identity_query M \<longrightarrow> stddev M \<noteq> 0 \<and> noisy_measurement M \<noteq> []"
    by simp
  have i: "is_identity_query ?M1" by (simp add: identity_query_qualifies)
  have n: "\<not> is_identity_query ?M3"
    by (simp add: is_identity_query_def allclose_def isclose_def)
  from minimum_variance_unbiased_total_estimate[OF a, of ?M1 ?M2]
  have 1: "minimum_variance_unbiased_total [?M1, ?M2] = 102" by simp
  from minimum_variance_unbiased_total_estimate[OF b] n
  have 2: "minimum_variance_unbiased_total [?M3] = 1" by simp
  from 1 i n 2 show ?thesis by blast
qed

text \<open>
  Claim C5 as stated fails on its example: two identity measurements with sums 100 and 110
  and standard deviations 2 and 4, of two cells each, combine to 102.
\<close>

theorem minimum_variance_unbiased_total_counterexample:
  "minimum_variance_unbiased_total
     [\<lparr>noisy_measurement = [60, 40], M_clique = [''A''], stddev = 2, query = Inr\<rparr>,
      \<lparr>noisy_measurement = [70, 40], M_clique = [''B''], stddev = 4, query = Inr\<rparr>] = 102
   \<and> \<not> \<bar>minimum_variance_unbiased_total
         [\<lparr>noisy_measurement = [60, 40], M_clique = [''A''], stddev = 2, query = Inr\<rparr>,
          \<lparr>noisy_measurement = [70, 40], M_clique = [''B''], stddev = 4, query = Inr\<rparr>] - 102.35\<bar> \<le> 0.005"
proof -
  have "minimum_variance_unbiased_total
     [\<lparr>noisy_measurement = [60, 40], M_clique = [''A''], stddev = 2, query = Inr\<rparr>,
      \<lparr>noisy_measurement = [70, 40], M_clique = [''B''], stddev = 4, query = Inr\<rparr>] = 102"
    by (simp add: minimum_variance_unbiased_total_def allclose_def isclose_def)
  then show ?thesis by simp
qed

section \<open>Properties of mirror descent\<close>

lemma foldl_update_keys:
  "set (keys (foldl (\<lambda>acc cl. AList.update cl (f cl) acc) acc cls)) = set (keys acc) \<union> set cls"
  by (induction cls arbitrary: acc) (auto simp: keys_update)

lemma foldl_update_distinct:
  "distinct (keys acc) \<Longrightarrow> distinct (keys (foldl (\<lambda>acc cl. AList.update cl (f cl) acc) acc cls))"
  by (induction cls arbitrary: acc) (auto simp: keys_def distinct_update)

lemma foldl_update_other:
  "cl \<notin> set cls \<Longrightarrow> map_of (foldl (\<lambda>acc cl. AList.update cl (f cl) acc) acc cls) cl = map_of acc cl"
  by (induction cls arbitrary: acc) (auto simp: update_conv')

lemma foldl_update_map_of:
  "cl \<in> set cls \<Longrightarrow> map_of (foldl (\<lambda>acc cl. AList.update cl (f cl) acc) acc cls) cl = Some (f cl)"
proof (induction cls arbitrary: acc)
  case Nil then show ?case by simp
next
  case (Cons k cls)
  show ?case
  proof (cases "cl \<in> set cls")
    case True
    then show ?thesis using Cons.IH by simp
  next
    case False
    with Cons.prems have "cl = k" by simp
    with False show ?thesis by (simp add: foldl_update_other update_conv')
  qed
qed

lemma CliqueVector_zeros_props:
  "distinct (keys (CliqueVector_zeros ops domain cls))"
  "set (keys (CliqueVector_zeros ops domain cls)) = set cls"
  "cl \<in> set cls \<Longrightarrow> map_of (CliqueVector_zeros ops domain cls) cl = Some (f_zeros ops domain cl)"
  using foldl_update_distinct[of "[]" "f_zeros ops domain" cls]
    foldl_update_keys[of "f_zeros ops domain" "[]" cls]
    foldl_update_map_of[of cl cls "f_zeros ops domain" "[]"]
  by (simp_all add: CliqueVector_zeros_def keys_def)

text \<open>
  Claim C4. With \<^verbatim>\<open>iters=0\<close> and no initial potentials, \<^verbatim>\<open>mirror_descent\<close> on a list
  of measurements returns the model whose potentials are \<^verbatim>\<open>CliqueVector.zeros\<close> over the
  cliques of the loss function, a zero factor at each of these cliques, whose marginals
  are the marginal oracle applied to these potentials and the total, and whose total is
  the given one or, by default, the estimate of
  \<^verbatim>\<open>minimum_variance_unbiased_total\<close>; the callback is not called.
\<close>

theorem mirror_descent_zero_iterations:
  "mirror_descent env domain (Measurements ms) known_total None marginal_oracle 0 stepsize =
     Inr (\<lparr>model_potentials =
              CliqueVector_zeros (factor env) domain (loss_cliques (from_linear_measurements env ms)),
           model_marginals =
              marginal_oracle
                (CliqueVector_zeros (factor env) domain (loss_cliques (from_linear_measurements env ms)))
                (case known_total of None \<Rightarrow> minimum_variance_unbiased_total ms | Some k \<Rightarrow> k),
           model_total = (case known_total of None \<Rightarrow> minimum_variance_unbiased_total ms | Some k \<Rightarrow> k)\<rparr>,
          [])
   \<and> set (keys (CliqueVector_zeros (factor env) domain (loss_cliques (from_linear_measurements env ms))))
       = set (loss_cliques (from_linear_measurements env ms))
   \<and> (\<forall>cl\<in>set (loss_cliques (from_linear_measurements env ms)).
        map_of (CliqueVector_zeros (factor env) domain (loss_cliques (from_linear_measurements env ms))) cl
          = Some (f_zeros (factor env) domain cl))"
  by (simp add: mirror_descent_def initialize_def CliqueVector_zeros_props)

theorem mirror_descent_zero_iterations_witness:
  "mirror_descent toy_mbi ()
     (Measurements [\<lparr>noisy_measurement = [60, 40], M_clique = [''A''], stddev = 2, query = Inr\<rparr>,
                    \<lparr>noisy_measurement = [30, 40, 40], M_clique = [''B''], stddev = 4, query = Inr\<rparr>])
     None None (\<lambda>theta t. map (\<lambda>(cl, v). (cl, v + t)) theta) 0 None =
   Inr (\<lparr>model_potentials = [([''A''], 0), ([''B''], 0)],
         model_marginals = [([''A''], 710 / 7), ([''B''], 710 / 7)],
         model_total = 710 / 7\<rparr>, [])"
proof -
  let ?ms = "[\<lparr>noisy_measurement = [60, 40], M_clique = [''A''], stddev = 2, query = Inr\<rparr>,
              \<lparr>noisy_measurement = [30, 40, 40::real], M_clique = [''B''], stddev = 4, query = Inr\<rparr>]"
  have t: "minimum_variance_unbiased_total ?ms = 710 / 7"
    by (simp add: minimum_variance_unbiased_total_def allclose_def isclose_def)
  have z: "CliqueVector_zeros (factor toy_mbi) () (loss_cliques (from_linear_measurements toy_mbi ?ms))
           = [([''A''], 0), ([''B''], 0)]"
    by (simp add: CliqueVector_zeros_def toy_mbi_def real_ops_def)
  from mirror_descent_zero_iterations[of toy_mbi "()" ?ms None "\<lambda>theta t. map (\<lambda>(cl, v). (cl, v + t)) theta" None]
  show ?thesis unfolding z by (simp add: t)
qed

lemma CliqueVector_sub_Vec_ok:
  assumes "set (keys self) \<subseteq> set (keys other)"
  shows "\<exists>r. CliqueVector_sub ops self (Vec other) = Inr r \<and> set (keys r) = set (keys self)"
proof -
  obtain neg where neg: "set (keys neg) = set (keys other)"
    "CliqueVector_sub ops self (Vec other) = CliqueVector_add ops self (Vec neg)"
    using CliqueVector_sub_Vec by blast
  with assms CliqueVector_add_Vec_ok[of self neg ops] show ?thesis by simp
qed

text \<open>One call of \<open>update\<close> under a line search, when the oracle and the gradient keep the keys.\<close>

lemma update_line_search:
  assumes o: "\<forall>theta t. set (keys (marginal_oracle theta t)) = set (keys theta)"
      and g: "\<forall>L mu. set (keys (grad env L mu)) = set (keys mu)"
  shows "\<exists>step theta2 diff inner.
          CliqueVector_mul (factor env) (grad env (loss_call loss_fn) (marginal_oracle theta kt)) alpha = Inr step
        \<and> CliqueVector_sub (factor env) theta (Vec step) = Inr theta2
        \<and> CliqueVector_sub (factor env) (marginal_oracle theta kt) (Vec (marginal_oracle theta2 kt)) = Inr diff
        \<and> CliqueVector_dot (factor env) (grad env (loss_call loss_fn) (marginal_oracle theta kt)) diff = Inr inner
        \<and> set (keys theta2) = set (keys theta)
        \<and> mirror_descent_update env loss_fn kt marginal_oracle None theta alpha =
            Inr (if loss_call loss_fn (marginal_oracle theta kt) - loss_call loss_fn (marginal_oracle theta2 kt)
                    \<ge> 0.5 * alpha * inner
                 then (theta2, loss_call loss_fn (marginal_oracle theta2 kt), alpha, marginal_oracle theta kt)
                 else (theta, loss_call loss_fn (marginal_oracle theta kt), 0.5 * alpha, marginal_oracle theta kt))"
proof -
  let ?mu = "marginal_oracle theta kt"
  let ?dL = "grad env (loss_call loss_fn) ?mu"
  have kmu: "set (keys ?mu) = set (keys theta)" using o by simp
  have kdL: "set (keys ?dL) = set (keys theta)" using g kmu by simp
  obtain step where step: "CliqueVector_mul (factor env) ?dL alpha = Inr step"
    "set (keys step) = set (keys ?dL)"
    using CliqueVector_mul_ok[of "factor env" ?dL alpha] by blast
  obtain theta2 where theta2: "CliqueVector_sub (factor env) theta (Vec step) = Inr theta2"
    "set (keys theta2) = set (keys theta)"
    using CliqueVector_sub_Vec_ok[of theta step "factor env"] step(2) kdL by auto
  let ?mu2 = "marginal_oracle theta2 kt"
  have kmu2: "set (keys ?mu2) = set (keys theta)" using o theta2(2) by simp
  obtain diff where diff: "CliqueVector_sub (factor env) ?mu (Vec ?mu2) = Inr diff"
    "set (keys diff) = set (keys ?mu)"
    using CliqueVector_sub_Vec_ok[of ?mu ?mu2 "factor env"] kmu kmu2 by auto
  obtain inner where inner: "CliqueVector_dot (factor env) ?dL diff = Inr inner"
    using CliqueVector_dot_ok[of ?dL diff "factor env"] diff(2) kdL kmu by auto
  have "mirror_descent_update env loss_fn kt marginal_oracle None theta alpha =
            Inr (if loss_call loss_fn ?mu - loss_call loss_fn ?mu2 \<ge> 0.5 * alpha * inner
                 then (theta2, loss_call loss_fn ?mu2, alpha, ?mu)
                 else (theta, loss_call loss_fn ?mu, 0.5 * alpha, ?mu))"
    using step(1) theta2(1) diff(1) inner by (simp add: mirror_descent_update_def Let_def)
  with step(1) theta2 diff(1) inner show ?thesis by blast
qed

lemma update_step_size:
  assumes o: "\<forall>theta t. set (keys (marginal_oracle theta t)) = set (keys theta)"
      and g: "\<forall>L mu. set (keys (grad env L mu)) = set (keys mu)"
  shows "\<exists>theta' loss' alpha' mu.
           mirror_descent_update env loss_fn kt marginal_oracle None theta alpha = Inr (theta', loss', alpha', mu)
         \<and> (alpha' = alpha \<or> alpha' = 0.5 * alpha)"
proof -
  from update_line_search[OF o g, of loss_fn theta kt alpha]
  obtain theta2 inner where e:
    "mirror_descent_update env loss_fn kt marginal_oracle None theta alpha =
            Inr (if loss_call loss_fn (marginal_oracle theta kt) - loss_call loss_fn (marginal_oracle theta2 kt)
                    \<ge> 0.5 * alpha * inner
                 then (theta2, loss_call loss_fn (marginal_oracle theta2 kt), alpha, marginal_oracle theta kt)
                 else (theta, loss_call loss_fn (marginal_oracle theta kt), 0.5 * alpha, marginal_oracle theta kt))"
    by blast
  show ?thesis
  proof (cases "loss_call loss_fn (marginal_oracle theta kt) - loss_call loss_fn (marginal_oracle theta2 kt)
                    \<ge> 0.5 * alpha * inner")
    case True
    with e have "mirror_descent_update env loss_fn kt marginal_oracle None theta alpha =
       Inr (theta2, loss_call loss_fn (marginal_oracle theta2 kt), alpha, marginal_oracle theta kt)"
      by (simp only: if_True)
    then show ?thesis by blast
  next
    case False
    with e have "mirror_descent_update env loss_fn kt marginal_oracle None theta alpha =
       Inr (theta, loss_call loss_fn (marginal_oracle theta kt), 0.5 * alpha, marginal_oracle theta kt)"
      by (simp only: if_False)
    then show ?thesis by blast
  qed
qed

lemma loop_runs:
  assumes s: "\<forall>theta alpha. \<exists>theta' loss' alpha' mu.
           update theta alpha = Inr (theta', loss', alpha', mu) \<and> (alpha' = alpha \<or> alpha' = 0.5 * alpha)"
  shows "\<exists>theta' alpha' tr. mirror_descent_loop update n theta alpha trace = Inr (theta', alpha', trace @ tr)
           \<and> length tr = n \<and> (0 \<le> alpha \<longrightarrow> 0 \<le> alpha' \<and> alpha' \<le> alpha)"
proof (induction n arbitrary: theta alpha trace)
  case 0 then show ?case by simp
next
  case (Suc n)
  from s obtain theta1 loss1 alpha1 mu where
    u: "update theta alpha = Inr (theta1, loss1, alpha1, mu)" "alpha1 = alpha \<or> alpha1 = 0.5 * alpha"
    by blast
  from Suc.IH[of theta1 alpha1 "trace @ [mu]"] obtain theta' alpha' tr where
    l: "mirror_descent_loop update n theta1 alpha1 (trace @ [mu]) = Inr (theta', alpha', (trace @ [mu]) @ tr)"
      "length tr = n" "0 \<le> alpha1 \<longrightarrow> 0 \<le> alpha' \<and> alpha' \<le> alpha1"
    by blast
  have a: "0 \<le> alpha \<longrightarrow> 0 \<le> alpha' \<and> alpha' \<le> alpha" using u(2) l(3) by auto
  have "mirror_descent_loop update (Suc n) theta alpha trace = Inr (theta', alpha', trace @ (mu # tr))"
    using u(1) l(1) by simp
  with l(2) a show ?case by (intro exI[of _ theta'] exI[of _ alpha'] exI[of _ "mu # tr"]) simp
qed

lemma loop_add:
  "mirror_descent_loop update (m + k) theta alpha trace =
     and_then (mirror_descent_loop update m theta alpha trace)
       (\<lambda>(theta', alpha', trace'). mirror_descent_loop update k theta' alpha' trace')"
proof (induction m arbitrary: theta alpha trace)
  case 0 then show ?case by simp
next
  case (Suc m)
  show ?case
  proof (cases "update theta alpha")
    case (Inl e) then show ?thesis by simp
  next
    case (Inr r)
    obtain theta1 loss1 alpha1 mu where "r = (theta1, loss1, alpha1, mu)" by (cases r)
    with Inr Suc.IH[of theta1 alpha1 "trace @ [mu]"] show ?thesis by simp
  qed
qed

lemma loop_monotone:
  assumes s: "\<forall>theta alpha. \<exists>theta' loss' alpha' mu.
           update theta alpha = Inr (theta', loss', alpha', mu) \<and> (alpha' = alpha \<or> alpha' = 0.5 * alpha)"
    and mn: "m \<le> n"
  shows "\<exists>thetam alpham tracem thetan alphan tracen.
           mirror_descent_loop update m theta alpha [] = Inr (thetam, alpham, tracem)
         \<and> mirror_descent_loop update n theta alpha [] = Inr (thetan, alphan, tracen)
         \<and> length tracem = m \<and> length tracen = n
         \<and> (0 \<le> alpha \<longrightarrow> 0 \<le> alphan \<and> alphan \<le> alpham \<and> alpham \<le> alpha)"
proof -
  from loop_runs[OF s, of m theta alpha "[]"] obtain thetam alpham tracem where
    m: "mirror_descent_loop update m theta alpha [] = Inr (thetam, alpham, tracem)"
       "length tracem = m" "0 \<le> alpha \<longrightarrow> 0 \<le> alpham \<and> alpham \<le> alpha"
    by auto
  from loop_runs[OF s, of "n - m" thetam alpham tracem] obtain thetan alphan tr where
    n: "mirror_descent_loop update (n - m) thetam alpham tracem = Inr (thetan, alphan, tracem @ tr)"
       "length tr = n - m" "0 \<le> alpham \<longrightarrow> 0 \<le> alphan \<and> alphan \<le> alpham"
    by auto
  have "mirror_descent_loop update n theta alpha [] = Inr (thetan, alphan, tracem @ tr)"
    using loop_add[of update m "n - m" theta alpha "[]"] m(1) n(1) mn by simp
  moreover have "length (tracem @ tr) = n" using m(2) n(2) mn by simp
  ultimately show ?thesis using m n(3) by blast
qed

text \<open>
  Claim C3. Let the marginal oracle and the gradient return vectors over the keys of
  their argument, so that the CliqueVector arithmetic of the step does not raise. Without
  a fixed step size, one call of \<^verbatim>\<open>update\<close> computes the candidate
  \<open>theta2 = theta - alpha * dL\<close> and returns it with its loss and the same \<open>alpha\<close>
  exactly when \<open>loss(mu) - loss(mu2) \<ge> 0.5 * alpha * dL.dot(mu - mu2)\<close>; otherwise it
  returns \<open>theta\<close> and its loss unchanged and half of \<open>alpha\<close>. Along the loop the step
  size never increases (from a non-negative start, such as the initial 2.0), and the loop
  makes exactly \<open>iters\<close> calls of the callback, one per iteration, whatever steps were
  accepted; \<^verbatim>\<open>mirror_descent\<close> returns after them unless its initialisation raises.
\<close>

theorem mirror_descent_line_search:
  assumes o: "\<forall>theta t. set (keys (marginal_oracle theta t)) = set (keys theta)"
      and g: "\<forall>L mu. set (keys (grad env L mu)) = set (keys mu)"
  shows "(\<exists>step theta2 diff inner.
          CliqueVector_mul (factor env) (grad env (loss_call loss_fn) (marginal_oracle theta kt)) alpha = Inr step
        \<and> CliqueVector_sub (factor env) theta (Vec step) = Inr theta2
        \<and> CliqueVector_sub (factor env) (marginal_oracle theta kt) (Vec (marginal_oracle theta2 kt)) = Inr diff
        \<and> CliqueVector_dot (factor env) (grad env (loss_call loss_fn) (marginal_oracle theta kt)) diff = Inr inner
        \<and> mirror_descent_update env loss_fn kt marginal_oracle None theta alpha =
            Inr (if loss_call loss_fn (marginal_oracle theta kt) - loss_call loss_fn (marginal_oracle theta2 kt)
                    \<ge> 0.5 * alpha * inner
                 then (theta2, loss_call loss_fn (marginal_oracle theta2 kt), alpha, marginal_oracle theta kt)
                 else (theta, loss_call loss_fn (marginal_oracle theta kt), 0.5 * alpha, marginal_oracle theta kt)))
     \<and> (m \<le> n \<longrightarrow>
          (\<exists>thetam alpham tracem thetan alphan tracen.
             mirror_descent_loop (mirror_descent_update env loss_fn kt marginal_oracle None) m theta alpha []
               = Inr (thetam, alpham, tracem)
           \<and> mirror_descent_loop (mirror_descent_update env loss_fn kt marginal_oracle None) n theta alpha []
               = Inr (thetan, alphan, tracen)
           \<and> length tracem = m \<and> length tracen = n
           \<and> (0 \<le> alpha \<longrightarrow> 0 \<le> alphan \<and> alphan \<le> alpham \<and> alpham \<le> alpha)))
     \<and> ((\<forall>l. loss_arg = LossFn l \<longrightarrow> known_total \<noteq> None) \<longrightarrow>
          (\<exists>model trace.
             mirror_descent env domain loss_arg known_total potentials marginal_oracle iters None
               = Inr (model, trace)
           \<and> length trace = iters))"
proof -
  have s: "\<forall>theta alpha. \<exists>theta' loss' alpha' mu.
           mirror_descent_update env L k marginal_oracle None theta alpha = Inr (theta', loss', alpha', mu)
         \<and> (alpha' = alpha \<or> alpha' = 0.5 * alpha)" for L k
    using update_step_size[OF o g] by blast
  have 1: "\<exists>step theta2 diff inner.
          CliqueVector_mul (factor env) (grad env (loss_call loss_fn) (marginal_oracle theta kt)) alpha = Inr step
        \<and> CliqueVector_sub (factor env) theta (Vec step) = Inr theta2
        \<and> CliqueVector_sub (factor env) (marginal_oracle theta kt) (Vec (marginal_oracle theta2 kt)) = Inr diff
        \<and> CliqueVector_dot (factor env) (grad env (loss_call loss_fn) (marginal_oracle theta kt)) diff = Inr inner
        \<and> mirror_descent_update env loss_fn kt marginal_oracle None theta alpha =
            Inr (if loss_call loss_fn (marginal_oracle theta kt) - loss_call loss_fn (marginal_oracle theta2 kt)
                    \<ge> 0.5 * alpha * inner
                 then (theta2, loss_call loss_fn (marginal_oracle theta2 kt), alpha, marginal_oracle theta kt)
                 else (theta, loss_call loss_fn (marginal_oracle theta kt), 0.5 * alpha, marginal_oracle theta kt))"
    using update_line_search[OF o g, of loss_fn theta kt alpha] by blast
  have 2: "\<exists>thetam alpham tracem thetan alphan tracen.
             mirror_descent_loop (mirror_descent_update env loss_fn kt marginal_oracle None) m theta alpha []
               = Inr (thetam, alpham, tracem)
           \<and> mirror_descent_loop (mirror_descent_update env loss_fn kt marginal_oracle None) n theta alpha []
               = Inr (thetan, alphan, tracen)
           \<and> length tracem = m \<and> length tracen = n
           \<and> (0 \<le> alpha \<longrightarrow> 0 \<le> alphan \<and> alphan \<le> alpham \<and> alpham \<le> alpha)" if "m \<le> n"
    using s that by (rule loop_monotone)
  have 3: "\<exists>model trace.
             mirror_descent env domain loss_arg known_total potentials marginal_oracle iters None
               = Inr (model, trace) \<and> length trace = iters"
    if h: "\<forall>l. loss_arg = LossFn l \<longrightarrow> known_total \<noteq> None"
  proof -
    obtain L k p where i: "initialize env domain loss_arg known_total potentials = Inr (L, k, p)"
    proof (cases loss_arg)
      case (Measurements ms)
      then show ?thesis using that by (simp add: initialize_def)
    next
      case (LossFn l)
      with h obtain k where "known_total = Some k" by auto
      with LossFn show ?thesis using that by (simp add: initialize_def)
    qed
    from loop_runs[OF s, of L k iters p 2 "[]"] obtain theta' alpha' tr where
      "mirror_descent_loop (mirror_descent_update env L k marginal_oracle None) iters p 2 [] = Inr (theta', alpha', tr)"
      "length tr = iters" by auto
    with i show ?thesis by (simp add: mirror_descent_def)
  qed
  from 1 2 3 show ?thesis by blast
qed

theorem mirror_descent_line_search_witness:
  "(\<forall>theta t. set (keys ((\<lambda>theta t. theta) theta (t::real))) = set (keys (theta :: (string, real) clique_vector)))
   \<and> (\<forall>L mu. set (keys (grad toy_mbi L mu)) = set (keys mu))
   \<and> mirror_descent_update toy_mbi (from_linear_measurements toy_mbi []) 1 (\<lambda>theta t. theta) None
        [([''A''], 1)] 2 = Inr ([([''A''], 1)], 1, 1, [([''A''], 1)])
   \<and> mirror_descent_update toy_mbi (from_linear_measurements toy_mbi []) 1 (\<lambda>theta t. theta) None
        [([''A''], 1)] (1 / 2) = Inr ([([''A''], 0)], 0, 1 / 2, [([''A''], 1)])
   \<and> mirror_descent_loop
        (mirror_descent_update toy_mbi (from_linear_measurements toy_mbi []) 1 (\<lambda>theta t. theta) None)
        3 [([''A''], 1)] 2 [] = Inr ([([''A''], 0)], 1 / 2, [[([''A''], 1)], [([''A''], 1)], [([''A''], 1)]])
   \<and> (\<exists>model trace.
         mirror_descent toy_mbi () (Measurements []) None (Some [([''A''], 1)]) (\<lambda>theta t. theta) 3 None
           = Inr (model, trace) \<and> length trace = 3)"
proof -
  have o: "\<forall>theta t. set (keys ((\<lambda>theta t. theta) theta (t::real))) = set (keys (theta :: (string, real) clique_vector))"
    by simp
  have g: "\<forall>L mu. set (keys (grad toy_mbi L mu)) = set (keys mu)"
    by (simp add: toy_mbi_def keys_def comp_def case_prod_beta)
  have u1: "mirror_descent_update toy_mbi (from_linear_measurements toy_mbi []) 1 (\<lambda>theta t. theta) None
        [([''A''], 1)] 2 = Inr ([([''A''], 1)], 1, 1, [([''A''], 1)])"
    by (simp add: mirror_descent_update_def CliqueVector_mul_def CliqueVector_sub_def CliqueVector_add_def
        CliqueVector_dot_def getitem_def keys_def toy_mbi_def real_ops_def Let_def)
  have u2: "mirror_descent_update toy_mbi (from_linear_measurements toy_mbi []) 1 (\<lambda>theta t. theta) None
        [([''A''], 1)] 1 = Inr ([([''A''], 1)], 1, 1 / 2, [([''A''], 1)])"
    by (simp add: mirror_descent_update_def CliqueVector_mul_def CliqueVector_sub_def CliqueVector_add_def
        CliqueVector_dot_def getitem_def keys_def toy_mbi_def real_ops_def Let_def)
  have u3: "mirror_descent_update toy_mbi (from_linear_measurements toy_mbi []) 1 (\<lambda>theta t. theta) None
        [([''A''], 1)] (1 / 2) = Inr ([([''A''], 0)], 0, 1 / 2, [([''A''], 1)])"
    by (simp add: mirror_descent_update_def CliqueVector_mul_def CliqueVector_sub_def CliqueVector_add_def
        CliqueVector_dot_def getitem_def keys_def toy_mbi_def real_ops_def Let_def)
  have l: "mirror_descent_loop
        (mirror_descent_update toy_mbi (from_linear_measurements toy_mbi []) 1 (\<lambda>theta t. theta) None)
        3 [([''A''], 1)] 2 [] = Inr ([([''A''], 0)], 1 / 2, [[([''A''], 1)], [([''A''], 1)], [([''A''], 1)]])"
    by (simp add: numeral_3_eq_3 u1 u2 u3)
  from mirror_descent_line_search[OF o g, where loss_arg = "Measurements []" and known_total = None
      and domain = "()" and potentials = "Some [([''A''], 1)]" and iters = 3]
  have m: "\<exists>model trace.
         mirror_descent toy_mbi () (Measurements []) None (Some [([''A''], 1)]) (\<lambda>theta t. theta) 3 None
           = Inr (model, trace) \<and> length trace = 3"
    by simp
  from o g u1 u3 l m show ?thesis by blast
qed

section \<open>Properties of the AIM mechanism\<close>

lemma and_thenE:
  assumes "and_then r k = Inr y"
  obtains x where "r = Inr x" "k x = Inr y"
  using assms by (cases r) auto

lemma py_div_Inr: "py_div a b = Inr q \<longleftrightarrow> b \<noteq> 0 \<and> q = a / b"
  by (auto simp: py_div_def)

lemma zcdp_state:
  assumes "zcdp_gaussian_mech world self val sensitivity r = Inr (y, self')"
  shows "same_config self self'" "rho_used self' = rho_used self + r" "r \<noteq> 0"
  using assms
  by (auto simp: zcdp_gaussian_mech_def Let_def py_div_Inr same_config_def split: prod.splits elim!: and_thenE)

lemma measure_initial_state:
  assumes "measure_initial world data r cls self ms = Inr (self', ms')"
  shows "same_config self self' \<and> rho_used self' = rho_used self + real (length cls) * r
       \<and> (\<exists>new. ms' = ms @ new \<and> map M_clique new = cls
             \<and> (\<forall>M\<in>set new. stddev M = sqrt (1 / (2 * r))))"
  using assms
proof (induction cls arbitrary: self ms)
  case Nil
  then show ?case by (simp add: same_config_def)
next
  case (Cons cl cls)
  from Cons.prems obtain y self1 q where
    z: "zcdp_gaussian_mech world self (data_project data cl) 1 r = Inr (y, self1)"
    and q: "py_div 1 (2 * r) = Inr q"
    and m: "measure_initial world data r cls self1
          (ms @ [\<lparr>noisy_measurement = y, M_clique = cl, stddev = sqrt q, query = default_query world\<rparr>])
          = Inr (self', ms')"
    by (auto simp: Let_def elim!: and_thenE)
  let ?M = "\<lparr>noisy_measurement = y, M_clique = cl, stddev = sqrt q, query = default_query world\<rparr>"
  from Cons.IH[OF m] obtain new where ih:
    "same_config self1 self'" "rho_used self' = rho_used self1 + real (length cls) * r"
    "ms' = (ms @ [?M]) @ new" "map M_clique new = cls"
    "\<forall>M\<in>set new. stddev M = sqrt (1 / (2 * r))"
    by blast
  have 0: "same_config self self'"
    using zcdp_state(1)[OF z] ih(1) by (simp add: same_config_def)
  have 1: "rho_used self' = rho_used self + real (length (cl # cls)) * r"
    using zcdp_state(2)[OF z] ih(2) by (simp add: algebra_simps)
  have 2: "ms' = ms @ (?M # new)" using ih(3) by simp
  have 3: "map M_clique (?M # new) = cl # cls" using ih(4) by simp
  have 4: "\<forall>M\<in>set (?M # new). stddev M = sqrt (1 / (2 * r))"
    using ih(5) q by (simp add: py_div_Inr)
  have "\<exists>new. ms' = ms @ new \<and> map M_clique new = cl # cls
          \<and> (\<forall>M\<in>set new. stddev M = sqrt (1 / (2 * r)))"
    using 2 3 4 by (intro exI[of _ "?M # new"] conjI)
  with 0 1 show ?case by (intro conjI)
qed

lemma worst_approximated_state:
  assumes "worst_approximated world self candidates answers model r = Inr (cl, self')"
  shows "same_config self self'" "rho_used self' = rho_used self"
  using assms
  by (auto simp: worst_approximated_def Let_def same_config_def split: prod.splits elim!: and_thenE)

lemma AIM_round_state:
  assumes "AIM_round world data candidates answers rho_oneway_i rho_iters_i (self, model, ms) = Inr (self', model', ms')"
  shows "same_config self self' \<and> rho_used self' = rho_used self + rho_iters_i / 2
       \<and> (\<exists>y cl. ms' = ms @ [\<lparr>noisy_measurement = y, M_clique = cl,
                               stddev = sqrt (1 / (2 * rho_oneway_i)), query = default_query world\<rparr>])"
proof -
  from assms obtain size_limit small cl self1 y self2 q where
    w: "worst_approximated world self small answers model (rho_iters_i / 2) = Inr (cl, self1)"
    and z: "zcdp_gaussian_mech world self1 (data_project data cl) 1 (rho_iters_i / 2) = Inr (y, self2)"
    and q: "py_div 1 (2 * rho_oneway_i) = Inr q"
    and r: "self' = self2" "ms' = ms @ [\<lparr>noisy_measurement = y, M_clique = cl, stddev = sqrt q,
                                          query = default_query world\<rparr>]"
    by (auto simp: AIM_round_def Let_def split: prod.splits elim!: and_thenE)
  have 0: "same_config self self'"
    using worst_approximated_state(1)[OF w] zcdp_state(1)[OF z] r(1) by (simp add: same_config_def)
  have 1: "rho_used self' = rho_used self + rho_iters_i / 2"
    using worst_approximated_state(2)[OF w] zcdp_state(2)[OF z] r(1) by simp
  have 2: "ms' = ms @ [\<lparr>noisy_measurement = y, M_clique = cl,
                               stddev = sqrt (1 / (2 * rho_oneway_i)), query = default_query world\<rparr>]"
    using r(2) q by (simp add: py_div_Inr)
  have "\<exists>y cl. ms' = ms @ [\<lparr>noisy_measurement = y, M_clique = cl,
                               stddev = sqrt (1 / (2 * rho_oneway_i)), query = default_query world\<rparr>]"
    using 2 by (intro exI)
  with 0 1 show ?thesis by (intro conjI)
qed

lemma AIM_rounds_state:
  assumes "AIM_rounds (AIM_round world data candidates answers rho_oneway_i rho_iters_i) n (self, model, ms)
             = Inr (self', model', ms')"
  shows "same_config self self' \<and> rho_used self' = rho_used self + real n * (rho_iters_i / 2)
       \<and> (\<exists>new. ms' = ms @ new \<and> length new = n
             \<and> (\<forall>M\<in>set new. stddev M = sqrt (1 / (2 * rho_oneway_i))))"
  using assms
proof (induction n arbitrary: self model ms)
  case 0
  then show ?case by (simp add: same_config_def)
next
  case (Suc n)
  from Suc.prems obtain self1 model1 ms1 where
    b: "AIM_round world data candidates answers rho_oneway_i rho_iters_i (self, model, ms) = Inr (self1, model1, ms1)"
    and l: "AIM_rounds (AIM_round world data candidates answers rho_oneway_i rho_iters_i) n (self1, model1, ms1)
             = Inr (self', model', ms')"
    by (auto elim!: and_thenE)
  from AIM_round_state[OF b] obtain y cl where
    s1: "same_config self self1" "rho_used self1 = rho_used self + rho_iters_i / 2"
    and m1: "ms1 = ms @ [\<lparr>noisy_measurement = y, M_clique = cl,
                               stddev = sqrt (1 / (2 * rho_oneway_i)), query = default_query world\<rparr>]"
    by blast
  let ?M = "\<lparr>noisy_measurement = y, M_clique = cl,
                               stddev = sqrt (1 / (2 * rho_oneway_i)), query = default_query world\<rparr>"
  from Suc.IH[OF l] obtain new where ih:
    "same_config self1 self'" "rho_used self' = rho_used self1 + real n * (rho_iters_i / 2)"
    "ms' = ms1 @ new" "length new = n" "\<forall>M\<in>set new. stddev M = sqrt (1 / (2 * rho_oneway_i))"
    by blast
  have 0: "same_config self self'" using s1(1) ih(1) by (simp add: same_config_def)
  have 1: "rho_used self' = rho_used self + real (Suc n) * (rho_iters_i / 2)"
    using s1(2) ih(2) by (simp add: algebra_simps)
  have 2: "ms' = ms @ (?M # new)" using ih(3) m1 by simp
  have 3: "length (?M # new) = Suc n" using ih(4) by simp
  have 4: "\<forall>M\<in>set (?M # new). stddev M = sqrt (1 / (2 * rho_oneway_i))" using ih(5) by simp
  have "\<exists>new. ms' = ms @ new \<and> length new = Suc n
          \<and> (\<forall>M\<in>set new. stddev M = sqrt (1 / (2 * rho_oneway_i)))"
    using 2 3 4 by (intro exI[of _ "?M # new"] conjI)
  with 0 1 show ?case by (intro conjI)
qed

lemma iterations_div: "nat \<lfloor>real n / 4\<rfloor> = n div 4"
proof -
  have "\<lfloor>real n / real 4\<rfloor> = int (n div 4)" by (rule floor_divide_of_nat_eq)
  then show ?thesis by simp
qed

lemma AIM_run_rounds_unfold:
  "AIM_run_rounds world self data workload initial_cliques =
     and_then (compile_workload (set_order world) workload) (\<lambda>candidates.
       and_then (py_div (rho self * 0.05) (real (length (oneway_cliques candidates)))) (\<lambda>rho_oneway_i.
       and_then (measure_initial world data rho_oneway_i (initial_cliques_of candidates initial_cliques) self [])
         (\<lambda>(self1, measurements).
       and_then (mirror_descent (mbi_env world) (data_domain data) (Measurements measurements)
                    None None (message_passing_new world) (max_iters self1) None) (\<lambda>(model, trace).
       and_then (py_div (rho self * 0.95) (real (length workload div 4))) (\<lambda>rho_iters_i.
         AIM_rounds (AIM_round world data candidates
                       (foldl (\<lambda>acc cl. AList.update cl (data_project data cl) acc) [] (keys candidates))
                       rho_oneway_i rho_iters_i)
           (length workload div 4) (self1, model, measurements))))))"
  by (simp add: AIM_run_rounds_def Let_def iterations_div oneway_cliques_def initial_cliques_of_def
      cong: list.case_cong option.case_cong)

lemma AIM_run_rounds_state:
  assumes "AIM_run_rounds world self data workload initial_cliques = Inr (self', model, ms)"
  shows "\<exists>candidates. compile_workload (set_order world) workload = Inr candidates
     \<and> oneway_cliques candidates \<noteq> [] \<and> length workload div 4 \<noteq> 0
     \<and> same_config self self'
     \<and> rho_used self' = rho_used self
          + real (length (initial_cliques_of candidates initial_cliques))
              * (rho self * 0.05 / real (length (oneway_cliques candidates)))
          + real (length workload div 4) * (rho self * 0.95 / real (length workload div 4) / 2)
     \<and> (\<exists>initial adaptive. ms = initial @ adaptive
           \<and> map M_clique initial = initial_cliques_of candidates initial_cliques
           \<and> length adaptive = length workload div 4
           \<and> (\<forall>M\<in>set (initial @ adaptive).
                 stddev M = sqrt (1 / (2 * (rho self * 0.05 / real (length (oneway_cliques candidates)))))))"
proof -
  from assms[unfolded AIM_run_rounds_unfold] obtain candidates r1 self1 ms1 model1 trace r2 where
    c: "compile_workload (set_order world) workload = Inr candidates"
    and r1: "py_div (rho self * 0.05) (real (length (oneway_cliques candidates))) = Inr r1"
    and i: "measure_initial world data r1 (initial_cliques_of candidates initial_cliques) self [] = Inr (self1, ms1)"
    and r2: "py_div (rho self * 0.95) (real (length workload div 4)) = Inr r2"
    and l: "AIM_rounds (AIM_round world data candidates
                       (foldl (\<lambda>acc cl. AList.update cl (data_project data cl) acc) [] (keys candidates))
                       r1 r2) (length workload div 4) (self1, model1, ms1) = Inr (self', model, ms)"
    by (auto elim!: and_thenE split: prod.splits)
  from r1 have o: "oneway_cliques candidates \<noteq> []"
    and r1v: "r1 = rho self * 0.05 / real (length (oneway_cliques candidates))"
    by (auto simp: py_div_Inr)
  from r2 have n: "length workload div 4 \<noteq> 0"
    and r2v: "r2 = rho self * 0.95 / real (length workload div 4)"
    by (auto simp: py_div_Inr)
  from measure_initial_state[OF i] obtain initial where a:
    "same_config self self1"
    "rho_used self1 = rho_used self + real (length (initial_cliques_of candidates initial_cliques)) * r1"
    "ms1 = initial" "map M_clique initial = initial_cliques_of candidates initial_cliques"
    "\<forall>M\<in>set initial. stddev M = sqrt (1 / (2 * r1))"
    by auto
  from AIM_rounds_state[OF l] obtain adaptive where b:
    "same_config self1 self'"
    "rho_used self' = rho_used self1 + real (length workload div 4) * (r2 / 2)"
    "ms = ms1 @ adaptive" "length adaptive = length workload div 4"
    "\<forall>M\<in>set adaptive. stddev M = sqrt (1 / (2 * r1))"
    by auto
  have 1: "same_config self self'" using a(1) b(1) by (simp add: same_config_def)
  have 2: "rho_used self' = rho_used self
          + real (length (initial_cliques_of candidates initial_cliques))
              * (rho self * 0.05 / real (length (oneway_cliques candidates)))
          + real (length workload div 4) * (rho self * 0.95 / real (length workload div 4) / 2)"
    using a(2) b(2) unfolding r1v r2v by simp
  have 3: "\<exists>initial adaptive. ms = initial @ adaptive
           \<and> map M_clique initial = initial_cliques_of candidates initial_cliques
           \<and> length adaptive = length workload div 4
           \<and> (\<forall>M\<in>set (initial @ adaptive).
                 stddev M = sqrt (1 / (2 * (rho self * 0.05 / real (length (oneway_cliques candidates))))))"
    using a(3,4,5) b(3,4,5) unfolding r1v
    by (intro exI[of _ initial] exI[of _ adaptive]) auto
  from c o n 1 2 3 show ?thesis by (intro exI[of _ candidates] conjI)
qed

lemma with_rounds_simps [simp]:
  "rho (with_rounds r self) = rho self"
  "prng (with_rounds r self) = prng self"
  "max_model_size (with_rounds r self) = max_model_size self"
  "max_iters (with_rounds r self) = max_iters self"
  "rho_used (with_rounds r self) = rho_used self"
  "(with_rounds r self)\<lparr>rho_used := a\<rparr> = with_rounds r (self\<lparr>rho_used := a\<rparr>)"
  "(with_rounds r self)\<lparr>prng := p\<rparr> = with_rounds r (self\<lparr>prng := p\<rparr>)"
  by (simp_all add: with_rounds_def)

lemma and_then_assoc:
  "and_then (and_then x k) k' = and_then x (\<lambda>v. and_then (k v) k')"
  by (cases x) simp_all

lemma zcdp_rounds:
  "zcdp_gaussian_mech world (with_rounds r self) val sensitivity rho_i =
     and_then (zcdp_gaussian_mech world self val sensitivity rho_i) (\<lambda>(y, s). Inr (y, with_rounds r s))"
  by (simp add: zcdp_gaussian_mech_def Let_def and_then_assoc case_prod_unfold)

lemma measure_initial_rounds:
  "measure_initial world data rho_i cls (with_rounds r self) ms =
     and_then (measure_initial world data rho_i cls self ms) (\<lambda>(s, ms). Inr (with_rounds r s, ms))"
proof (induction cls arbitrary: self ms)
  case Nil then show ?case by simp
next
  case (Cons cl cls)
  show ?case
    by (simp add: Let_def zcdp_rounds and_then_assoc Cons.IH case_prod_unfold)
qed

lemma worst_approximated_rounds:
  "worst_approximated world (with_rounds r self) candidates answers model rho_i =
     and_then (worst_approximated world self candidates answers model rho_i)
       (\<lambda>(cl, s). Inr (cl, with_rounds r s))"
  by (simp add: worst_approximated_def Let_def and_then_assoc case_prod_unfold)

lemma AIM_round_rounds:
  "AIM_round world data candidates answers r1 r2 (with_rounds r self, model, ms) =
     and_then (AIM_round world data candidates answers r1 r2 (self, model, ms))
       (\<lambda>(s, m, ms). Inr (with_rounds r s, m, ms))"
  by (simp add: AIM_round_def Let_def worst_approximated_rounds zcdp_rounds and_then_assoc case_prod_unfold)

lemma AIM_rounds_rounds:
  "AIM_rounds (AIM_round world data candidates answers r1 r2) n (with_rounds r self, model, ms) =
     and_then (AIM_rounds (AIM_round world data candidates answers r1 r2) n (self, model, ms))
       (\<lambda>(s, m, ms). Inr (with_rounds r s, m, ms))"
proof (induction n arbitrary: self model ms)
  case 0 then show ?case by simp
next
  case (Suc n)
  have "AIM_rounds (AIM_round world data candidates answers r1 r2) n (with_rounds r (fst v), fst (snd v), snd (snd v)) =
     and_then (AIM_rounds (AIM_round world data candidates answers r1 r2) n v)
       (\<lambda>(s, m, ms). Inr (with_rounds r s, m, ms))" for v
    using Suc.IH[of "fst v" "fst (snd v)" "snd (snd v)"] by (simp add: case_prod_unfold)
  then show ?case by (simp add: AIM_round_rounds and_then_assoc case_prod_unfold)
qed

lemma AIM_run_rounds_rounds:
  "AIM_run_rounds world (with_rounds r self) data workload initial_cliques =
     and_then (AIM_run_rounds world self data workload initial_cliques)
       (\<lambda>(s, m, ms). Inr (with_rounds r s, m, ms))"
  by (simp add: AIM_run_rounds_unfold measure_initial_rounds AIM_rounds_rounds and_then_assoc case_prod_unfold)

lemma AIM_run_rounds_indep:
  "AIM_run world (with_rounds r self) data workload num_synth_rows initial_cliques =
     and_then (AIM_run world self data workload num_synth_rows initial_cliques)
       (\<lambda>(result, s). Inr (result, with_rounds r s))"
  by (simp add: AIM_run_def AIM_run_rounds_rounds and_then_assoc case_prod_unfold Let_def)

lemma toy_sel:
  "set_order toy_world = remdups"
  "message_passing_new toy_world = (\<lambda>theta t. theta)"
  "domain_size toy_world = (\<lambda>d cl. 2 ^ length cl)"
  "maximal_cliques toy_world = (\<lambda>d cls. cls)"
  "normal toy_world = (\<lambda>s sigma n. (replicate n 0, s @ [sigma]))"
  "exponential_mechanism toy_world = (\<lambda>s errors epsilon sens. (fst (last errors), s))"
  "default_query toy_world = Inr"
  "data_domain toy_data = ()"
  "data_project toy_data = (\<lambda>cl. replicate (2 ^ length cl) 10)"
  "from_linear_measurements (mbi_env toy_world) = (\<lambda>ms. \<lparr>loss_cliques = map M_clique ms,
        loss_call = (\<lambda>mu. sum_list (map (\<lambda>(cl, v). v * v) mu))\<rparr>)"
  "variable_elimination (mbi_env toy_world) = (\<lambda>p attrs t. 0)"
  "f_zeros (factor (mbi_env toy_world)) = (\<lambda>d cl. 0)"
  "f_project (factor (mbi_env toy_world)) = (\<lambda>f cl. f)"
  "f_datavector (factor (mbi_env toy_world)) = (\<lambda>x. [x])"
  "f_domain (factor (mbi_env toy_world)) = (\<lambda>f. ())"
  by (simp_all add: toy_world_def toy_data_def)

lemma toy_compile: "compile_workload (set_order toy_world) toy_workload = Inr toy_candidates"
  unfolding toy_sel toy_workload_def toy_candidates_def by code_simp

lemma toy_oneway: "oneway_cliques toy_candidates = [[0], [1], [2]]"
  by (simp add: oneway_cliques_def toy_candidates_def keys_def)

lemma toy_zcdp:
  "r \<noteq> 0 \<Longrightarrow> zcdp_gaussian_mech toy_world self (replicate n 10) 1 r =
     Inr (replicate n 10, self\<lparr>rho_used := rho_used self + r, prng := prng self @ [sqrt (1 / (2 * r))]\<rparr>)"
  by (simp add: zcdp_gaussian_mech_def py_div_def broadcast2_def Let_def map2_same zip_replicate toy_sel)

lemma toy_measure_initial:
  "r \<noteq> 0 \<Longrightarrow> measure_initial toy_world toy_data r cls self ms =
     Inr (self\<lparr>rho_used := rho_used self + real (length cls) * r,
               prng := prng self @ replicate (length cls) (sqrt (1 / (2 * r)))\<rparr>,
          ms @ map (\<lambda>cl. \<lparr>noisy_measurement = replicate (2 ^ length cl) 10, M_clique = cl,
                           stddev = sqrt (1 / (2 * r)), query = Inr\<rparr>) cls)"
proof (induction cls arbitrary: self ms)
  case Nil then show ?case by simp
next
  case (Cons cl cls)
  show ?case
    using Cons.prems
    by (simp add: toy_zcdp Cons.IH py_div_def Let_def algebra_simps replicate_append_same toy_sel)
qed

lemma mirror_descent_no_iterations:
  "mirror_descent env domain (Measurements ms) None potentials marginal_oracle 0 stepsize =
     Inr (\<lparr>model_potentials =
             (case potentials of
                None \<Rightarrow> CliqueVector_zeros (factor env) domain (loss_cliques (from_linear_measurements env ms))
              | Some p \<Rightarrow> p),
           model_marginals = marginal_oracle
             (case potentials of
                None \<Rightarrow> CliqueVector_zeros (factor env) domain (loss_cliques (from_linear_measurements env ms))
              | Some p \<Rightarrow> p) (minimum_variance_unbiased_total ms),
           model_total = minimum_variance_unbiased_total ms\<rparr>, [])"
  by (simp add: mirror_descent_def initialize_def)

lemma foldl_update_fresh:
  "distinct (map fst acc @ cls) \<Longrightarrow>
   foldl (\<lambda>acc cl. AList.update cl (f cl) acc) acc cls = acc @ map (\<lambda>cl. (cl, f cl)) cls"
proof (induction cls arbitrary: acc)
  case Nil then show ?case by simp
next
  case (Cons cl cls)
  have "AList.update cl (f cl) acc = acc @ [(cl, f cl)]" using Cons.prems by (intro update_fresh) auto
  moreover have "distinct (map fst (acc @ [(cl, f cl)]) @ cls)" using Cons.prems by simp
  ultimately show ?case using Cons.IH[of "acc @ [(cl, f cl)]"] by simp
qed

lemma zeros_distinct:
  "distinct cls \<Longrightarrow> CliqueVector_zeros ops d cls = map (\<lambda>cl. (cl, f_zeros ops d cl)) cls"
  using foldl_update_fresh[of "[]" cls "f_zeros ops d"] by (simp add: CliqueVector_zeros_def)

lemma toy_initial_distinct: "distinct toy_initial_cliques"
  by (simp add: toy_initial_cliques_def distinct_map inj_on_def)

lemma toy_initial_length: "length toy_initial_cliques = 32"
  by (simp add: toy_initial_cliques_def)

lemma toy_initial_nonempty: "toy_initial_cliques \<noteq> []"
  using toy_initial_length by auto

lemma toy_cells: "sum_list (map (\<lambda>cl. 2 ^ length cl) toy_initial_cliques) = (64::nat)"
  by (simp add: toy_initial_cliques_def comp_def sum_list_triv)

lemma toy_zeros_eq:
  "distinct cls \<Longrightarrow> CliqueVector_zeros (factor (mbi_env toy_world)) () cls = toy_zeros cls"
  by (simp add: zeros_distinct toy_zeros_def toy_sel)

lemma toy_zeros_keys: "keys (toy_zeros cls) = cls"
  by (simp add: toy_zeros_def keys_def comp_def)

lemma toy_zeros_values: "v \<in> snd ` set (toy_zeros cls) \<Longrightarrow> v = 0"
  by (auto simp: toy_zeros_def)

lemma toy_domain: "p \<noteq> [] \<Longrightarrow> CliqueVector_domain (factor (mbi_env toy_world)) p = Inr ()"
  by (cases p) (simp_all add: CliqueVector_domain_def)

lemma toy_model_size:
  assumes "real (sum_list (map (\<lambda>cl. 2 ^ length cl) (keys p)) + 8) * 8 / 2 ^ 20 \<le> limit"
    and "length cl \<le> 3"
  shows "hypothetical_model_size toy_world () (keys p @ [cl]) \<le> limit"
proof -
  have "(2::nat) ^ length cl \<le> 2 ^ 3" using assms(2) by (intro power_increasing) simp_all
  then have "sum_list (map (\<lambda>cl. 2 ^ length cl) (keys p)) + 2 ^ length cl
             \<le> sum_list (map (\<lambda>cl. 2 ^ length cl) (keys p)) + (8::nat)"
    by simp
  then have "real (sum_list (map (\<lambda>cl. 2 ^ length cl) (keys p)) + 2 ^ length cl)
             \<le> real (sum_list (map (\<lambda>cl. 2 ^ length cl) (keys p)) + 8)"
    by (rule of_nat_mono)
  then have "real (sum_list (map (\<lambda>cl. 2 ^ length cl) (keys p)) + 2 ^ length cl) * 8 / 2 ^ 20
             \<le> real (sum_list (map (\<lambda>cl. 2 ^ length cl) (keys p)) + 8) * 8 / 2 ^ 20"
    by (intro divide_right_mono mult_right_mono) simp_all
  with assms(1) show ?thesis
    by (simp add: hypothetical_model_size_def toy_sel)
qed

lemma toy_project_loop:
  "project_loop (factor (mbi_env toy_world)) m cl ks = Inr f \<Longrightarrow> f \<in> snd ` set m"
proof (induction ks)
  case Nil then show ?case by simp
next
  case (Cons k ks)
  show ?case
  proof (cases "set cl \<subseteq> set k")
    case True
    with Cons.prems obtain v where "getitem m k = Inr v" "f = v"
      by (auto simp: toy_sel elim!: and_thenE)
    then have "map_of m k = Some f" by (simp add: getitem_Inr_iff)
    then have "(k, f) \<in> set m" by (rule map_of_SomeD)
    then show ?thesis by force
  next
    case False
    with Cons show ?thesis by simp
  qed
qed

lemma toy_model_project:
  assumes "\<And>v. v \<in> snd ` set (model_marginals model) \<Longrightarrow> v = 0"
  shows "GraphicalModel_project (mbi_env toy_world) model cl = 0"
proof (cases "CliqueVector_project (factor (mbi_env toy_world)) (model_marginals model) cl")
  case (Inl e)
  then show ?thesis by (simp add: GraphicalModel_project_def toy_sel)
next
  case (Inr f)
  then have "f \<in> snd ` set (model_marginals model)"
    unfolding CliqueVector_project_def by (rule toy_project_loop)
  with assms have "f = 0" by blast
  with Inr show ?thesis by (simp add: GraphicalModel_project_def)
qed

lemma toy_answers_eq:
  "foldl (\<lambda>acc cl. AList.update cl (data_project toy_data cl) acc) [] (keys toy_candidates) = toy_answers"
proof -
  have "distinct (map fst ([] :: (nat clique \<times> real list) list) @ keys toy_candidates)"
    by (simp add: toy_candidates_def keys_def)
  from foldl_update_fresh[OF this, of "data_project toy_data"] show ?thesis
    by (simp add: toy_answers_def toy_sel)
qed

lemma toy_filter:
  assumes "p \<noteq> []"
    and "real (sum_list (map (\<lambda>cl. 2 ^ length cl) (keys p)) + 8) * 8 / 2 ^ 20 \<le> limit"
  shows "filter_candidates toy_world toy_candidates
     \<lparr>model_potentials = p, model_marginals = mm, model_total = t\<rparr> limit = Inr toy_candidates"
proof -
  have d: "CliqueVector_domain (factor (mbi_env toy_world)) p = Inr ()"
    using assms(1) by (rule toy_domain)
  have s: "length cl \<le> 3 \<Longrightarrow> hypothetical_model_size toy_world () (keys p @ [cl]) \<le> limit" for cl
    using assms(2) by (rule toy_model_size)
  show ?thesis
    unfolding filter_candidates_def Let_def
    by (simp add: toy_candidates_def keys_def[of "[_]"] keys_def[of "_ # _"] d s getitem_def)
qed

lemma toy_worst_loop:
  assumes "p \<noteq> []" "\<And>v. v \<in> snd ` set mm \<Longrightarrow> v = 0"
  shows "\<exists>errors sensitivity.
     worst_approximated_loop toy_world toy_candidates toy_answers
       \<lparr>model_potentials = p, model_marginals = mm, model_total = t\<rparr> sigma
       (keys toy_candidates) [] [] = Inr (errors, sensitivity)
     \<and> fst (last errors) = [0, 1, 2] \<and> sensitivity \<noteq> []"
proof -
  have d: "CliqueVector_domain (factor (mbi_env toy_world)) p = Inr ()"
    using assms(1) by (rule toy_domain)
  have q: "GraphicalModel_project (mbi_env toy_world)
             \<lparr>model_potentials = p, model_marginals = mm, model_total = t\<rparr> cl = 0" for cl
    using assms(2) by (intro toy_model_project) simp
  show ?thesis
    by (simp add: toy_candidates_def toy_answers_def keys_def getitem_def d q toy_sel broadcast2_def)
qed

lemma toy_worst:
  assumes "p \<noteq> []" "\<And>v. v \<in> snd ` set mm \<Longrightarrow> v = 0" "r \<noteq> 0"
  shows "worst_approximated toy_world self toy_candidates toy_answers
           \<lparr>model_potentials = p, model_marginals = mm, model_total = t\<rparr> r
         = Inr ([0, 1, 2], self)"
proof -
  from toy_worst_loop[OF assms(1,2), where t = t and sigma = "sqrt (1 / (2 * r))"]
  obtain errors sensitivity where
    l: "worst_approximated_loop toy_world toy_candidates toy_answers
       \<lparr>model_potentials = p, model_marginals = mm, model_total = t\<rparr> (sqrt (1 / (2 * r)))
       (keys toy_candidates) [] [] = Inr (errors, sensitivity)"
     and e: "fst (last errors) = [0, 1, 2]" and s: "sensitivity \<noteq> []"
    by blast
  from s obtain v where "py_max (map snd sensitivity) = Inr v"
    by (cases sensitivity) (auto simp: py_max_def)
  with l e assms(3) show ?thesis
    by (simp add: worst_approximated_def py_div_def Let_def toy_sel)
qed

text \<open>One adaptive round in the small world, from a model with zero marginals and no fit iterations.\<close>

lemma toy_round:
  assumes "p \<noteq> []" "\<And>v. v \<in> snd ` set mm \<Longrightarrow> v = 0" "r1 \<noteq> 0" "r2 \<noteq> 0" "rho self \<noteq> 0"
    "max_iters self = 0"
    and "real (sum_list (map (\<lambda>cl. 2 ^ length cl) (keys p)) + 8) * 8 / 2 ^ 20
           \<le> max_model_size self * rho_used self / rho self"
  shows "\<exists>model. AIM_round toy_world toy_data toy_candidates toy_answers r1 r2
           (self, \<lparr>model_potentials = p, model_marginals = mm, model_total = t\<rparr>, ms) =
         Inr (self\<lparr>rho_used := rho_used self + r2 / 2, prng := prng self @ [sqrt (1 / (2 * (r2 / 2)))]\<rparr>,
              model,
              ms @ [\<lparr>noisy_measurement = replicate 8 10, M_clique = [0, 1, 2],
                     stddev = sqrt (1 / (2 * r1)), query = Inr\<rparr>])"
proof -
  let ?model1 = "\<lparr>model_potentials = p, model_marginals = mm, model_total = t\<rparr>"
  have f: "filter_candidates toy_world toy_candidates ?model1
             (max_model_size self * rho_used self / rho self) = Inr toy_candidates"
    using assms(1,7) by (rule toy_filter)
  have w: "worst_approximated toy_world self toy_candidates toy_answers ?model1 (r2 / 2)
             = Inr ([0, 1, 2], self)"
    using assms(1,2,4) by (intro toy_worst) simp_all
  have z: "zcdp_gaussian_mech toy_world self (replicate 8 10) 1 (r2 / 2) =
     Inr (replicate 8 10,
          self\<lparr>rho_used := rho_used self + r2 / 2, prng := prng self @ [sqrt (1 / (2 * (r2 / 2)))]\<rparr>)"
    using assms(4) by (intro toy_zcdp) simp
  show ?thesis
    unfolding AIM_round_def
    using assms(3,5,6)
    by (simp add: py_div_def f w z[simplified] toy_sel Let_def mirror_descent_no_iterations)
qed

lemma toy_run_rounds:
  assumes c: "initial_cliques_of toy_candidates initial_cliques = cls"
    and n: "cls \<noteq> []" and d: "distinct cls"
    and b: "real (sum_list (map (\<lambda>cl. 2 ^ length cl) cls) + 8) * 8 / 2 ^ 20 \<le> 80 * (real (length cls) / 60)"
  shows "\<exists>model. AIM_run_rounds toy_world (AIM_init 1 [] None 80 0) toy_data toy_workload initial_cliques =
    Inr (\<lparr>rho = 1, prng = replicate (length cls) (sqrt 30) @ [sqrt (20 / 19)], rounds = None,
          max_model_size = 80, max_iters = 0, rho_used = real (length cls) / 60 + 19 / 40\<rparr>,
         model,
         toy_measurements (sqrt 30) cls @
           [\<lparr>noisy_measurement = replicate 8 10, M_clique = [0, 1, 2], stddev = sqrt 30, query = Inr\<rparr>])"
proof -
  let ?self1 = "\<lparr>rho = 1, prng = replicate (length cls) (sqrt 30), rounds = None,
                 max_model_size = 80, max_iters = 0, rho_used = real (length cls) / 60\<rparr>"
  let ?ms1 = "toy_measurements (sqrt 30) cls"
  have r1: "py_div (rho (AIM_init 1 [] None 80 0) * 0.05) (real (length (oneway_cliques toy_candidates)))
              = Inr (1 / 60)"
    by (simp add: py_div_def toy_oneway AIM_init_def)
  have i: "measure_initial toy_world toy_data (1 / 60) cls (AIM_init 1 [] None 80 0) [] = Inr (?self1, ?ms1)"
    by (simp add: toy_measure_initial AIM_init_def toy_measurements_def)
  have k: "map M_clique ?ms1 = cls" by (simp add: toy_measurements_def comp_def)
  have m: "mirror_descent (mbi_env toy_world) (data_domain toy_data) (Measurements ?ms1)
              None None (message_passing_new toy_world) (max_iters ?self1) None =
           Inr (\<lparr>model_potentials = toy_zeros cls, model_marginals = toy_zeros cls,
                 model_total = minimum_variance_unbiased_total ?ms1\<rparr>, [])"
    using toy_zeros_eq[OF d]
    by (simp add: mirror_descent_no_iterations toy_sel k)
  have r2: "py_div (rho (AIM_init 1 [] None 80 0) * 0.95) (real (length toy_workload div 4)) = Inr (19 / 20)"
    by (simp add: py_div_def toy_workload_def AIM_init_def)
  have z: "toy_zeros cls \<noteq> []" using n by (simp add: toy_zeros_def)
  have "\<exists>model. AIM_round toy_world toy_data toy_candidates toy_answers (1 / 60) (19 / 20)
           (?self1, \<lparr>model_potentials = toy_zeros cls, model_marginals = toy_zeros cls,
                 model_total = minimum_variance_unbiased_total ?ms1\<rparr>, ?ms1) =
         Inr (?self1\<lparr>rho_used := rho_used ?self1 + 19 / 20 / 2,
                     prng := prng ?self1 @ [sqrt (1 / (2 * (19 / 20 / 2)))]\<rparr>,
              model,
              ?ms1 @ [\<lparr>noisy_measurement = replicate 8 10, M_clique = [0, 1, 2],
                     stddev = sqrt (1 / (2 * (1 / 60))), query = Inr\<rparr>])"
    using z toy_zeros_values b by (intro toy_round) (simp_all add: toy_zeros_keys)
  then obtain model where
    a: "AIM_round toy_world toy_data toy_candidates toy_answers (1 / 60) (19 / 20)
           (?self1, \<lparr>model_potentials = toy_zeros cls, model_marginals = toy_zeros cls,
                 model_total = minimum_variance_unbiased_total ?ms1\<rparr>, ?ms1) =
         Inr (\<lparr>rho = 1, prng = replicate (length cls) (sqrt 30) @ [sqrt (20 / 19)], rounds = None,
                max_model_size = 80, max_iters = 0, rho_used = real (length cls) / 60 + 19 / 40\<rparr>,
              model,
              ?ms1 @ [\<lparr>noisy_measurement = replicate 8 10, M_clique = [0, 1, 2],
                     stddev = sqrt 30, query = Inr\<rparr>])"
    by auto
  have l: "length toy_workload div 4 = Suc 0" by (simp add: toy_workload_def)
  have "AIM_run_rounds toy_world (AIM_init 1 [] None 80 0) toy_data toy_workload initial_cliques =
    Inr (\<lparr>rho = 1, prng = replicate (length cls) (sqrt 30) @ [sqrt (20 / 19)], rounds = None,
          max_model_size = 80, max_iters = 0, rho_used = real (length cls) / 60 + 19 / 40\<rparr>,
         model,
         ?ms1 @ [\<lparr>noisy_measurement = replicate 8 10, M_clique = [0, 1, 2], stddev = sqrt 30, query = Inr\<rparr>])"
    unfolding AIM_run_rounds_unfold toy_compile and_then_simps r1 c i prod.case m toy_answers_eq
    using a unfolding l by (simp add: py_div_def AIM_init_def)
  then show ?thesis by (rule exI)
qed

lemma toy_run:
  assumes c: "initial_cliques_of toy_candidates initial_cliques = cls"
    and n: "cls \<noteq> []" and d: "distinct cls"
    and b: "real (sum_list (map (\<lambda>cl. 2 ^ length cl) cls) + 8) * 8 / 2 ^ 20 \<le> 80 * (real (length cls) / 60)"
  shows "\<exists>result. AIM_run toy_world (AIM_init 1 [] None 80 0) toy_data toy_workload num_synth_rows initial_cliques =
    Inr (result, \<lparr>rho = 1, prng = replicate (length cls) (sqrt 30) @ [sqrt (20 / 19)], rounds = None,
          max_model_size = 80, max_iters = 0, rho_used = real (length cls) / 60 + 19 / 40\<rparr>)"
proof -
  from toy_run_rounds[OF assms] obtain model where
    "AIM_run_rounds toy_world (AIM_init 1 [] None 80 0) toy_data toy_workload initial_cliques =
    Inr (\<lparr>rho = 1, prng = replicate (length cls) (sqrt 30) @ [sqrt (20 / 19)], rounds = None,
          max_model_size = 80, max_iters = 0, rho_used = real (length cls) / 60 + 19 / 40\<rparr>,
         model,
         toy_measurements (sqrt 30) cls @
           [\<lparr>noisy_measurement = replicate 8 10, M_clique = [0, 1, 2], stddev = sqrt 30, query = Inr\<rparr>])"
    by blast
  then show ?thesis
    by (simp add: AIM_run_def mirror_descent_no_iterations Let_def)
qed

lemma initial_cliques_given: "cls \<noteq> [] \<Longrightarrow> initial_cliques_of candidates (Some cls) = cls"
  by (cases cls) (simp_all add: initial_cliques_of_def)

lemma toy_given_initial:
  "initial_cliques_of toy_candidates (Some toy_initial_cliques) = toy_initial_cliques"
  using toy_initial_nonempty by (rule initial_cliques_given)

lemma toy_default_initial:
  "initial_cliques_of toy_candidates None = [[0], [1], [2]]"
  by (simp add: initial_cliques_of_def toy_oneway)

lemma filter_candidates_loop_domain_len:
  "filter_candidates_loop (world\<lparr>domain_len := dl\<rparr>) candidates model size_limit free ks ans =
   filter_candidates_loop world candidates model size_limit free ks ans"
  by (induction ks arbitrary: ans) (simp_all add: hypothetical_model_size_def cong: if_cong)

lemma worst_approximated_loop_domain_len:
  "worst_approximated_loop (world\<lparr>domain_len := dl\<rparr>) candidates answers model sigma ks errors sens =
   worst_approximated_loop world candidates answers model sigma ks errors sens"
  by (induction ks arbitrary: errors sens) simp_all

lemma measure_initial_domain_len:
  "measure_initial (world\<lparr>domain_len := dl\<rparr>) data r cls self ms = measure_initial world data r cls self ms"
  by (induction cls arbitrary: self ms) (simp_all add: zcdp_gaussian_mech_def)

lemma AIM_round_domain_len:
  "AIM_round (world\<lparr>domain_len := dl\<rparr>) data candidates answers r1 r2 =
   AIM_round world data candidates answers r1 r2"
  by (rule ext)
     (simp add: AIM_round_def filter_candidates_def filter_candidates_loop_domain_len
        worst_approximated_def worst_approximated_loop_domain_len zcdp_gaussian_mech_def)

lemma AIM_run_rounds_domain_len:
  "AIM_run_rounds (world\<lparr>domain_len := dl\<rparr>) self data workload initial_cliques =
   AIM_run_rounds world self data workload initial_cliques"
  by (simp add: AIM_run_rounds_unfold measure_initial_domain_len AIM_round_domain_len)

lemma AIM_run_domain_len:
  "AIM_run (world\<lparr>domain_len := dl\<rparr>) self data workload num_synth_rows initial_cliques =
   AIM_run world self data workload num_synth_rows initial_cliques"
  by (simp add: AIM_run_def AIM_run_rounds_domain_len)

text \<open>
  Claim C10. A run that reaches the end of its loop has made exactly
  \<open>\<lfloor>len(workload) / 4\<rfloor>\<close> adaptive rounds, each of which appended one measurement after
  those of the initial cliques. The \<^verbatim>\<open>rounds\<close> argument of the constructor and the
  default \<open>16 * len(data.domain)\<close> computed from it have no influence: a run from an
  object that differs only in \<^verbatim>\<open>rounds\<close> raises the same exception or returns the same
  model and synthetic data and leaves the same object but for that field, and the length
  of the domain does not enter the result either.
\<close>

theorem AIM_run_round_count:
  "(AIM_run_rounds world self data workload initial_cliques = Inr (self', model, ms) \<longrightarrow>
      (\<exists>candidates initial adaptive.
         compile_workload (set_order world) workload = Inr candidates
       \<and> ms = initial @ adaptive
       \<and> map M_clique initial = initial_cliques_of candidates initial_cliques
       \<and> length adaptive = nat \<lfloor>real (length workload) / 4\<rfloor>
       \<and> length adaptive = length workload div 4))
   \<and> AIM_run world (self\<lparr>rounds := r\<rparr>) data workload num_synth_rows initial_cliques =
       and_then (AIM_run world self data workload num_synth_rows initial_cliques)
         (\<lambda>(result, s). Inr (result, s\<lparr>rounds := r\<rparr>))
   \<and> AIM_run (world\<lparr>domain_len := dl\<rparr>) self data workload num_synth_rows initial_cliques =
       AIM_run world self data workload num_synth_rows initial_cliques"
proof -
  have 1: "\<exists>candidates initial adaptive.
         compile_workload (set_order world) workload = Inr candidates
       \<and> ms = initial @ adaptive
       \<and> map M_clique initial = initial_cliques_of candidates initial_cliques
       \<and> length adaptive = nat \<lfloor>real (length workload) / 4\<rfloor>
       \<and> length adaptive = length workload div 4"
    if h: "AIM_run_rounds world self data workload initial_cliques = Inr (self', model, ms)"
  proof -
    from AIM_run_rounds_state[OF h] obtain candidates initial adaptive where
      "compile_workload (set_order world) workload = Inr candidates"
      "ms = initial @ adaptive"
      "map M_clique initial = initial_cliques_of candidates initial_cliques"
      "length adaptive = length workload div 4"
      by auto
    then show ?thesis
      by (intro exI[of _ candidates] exI[of _ initial] exI[of _ adaptive]) (simp add: iterations_div)
  qed
  have 2: "AIM_run world (self\<lparr>rounds := r\<rparr>) data workload num_synth_rows initial_cliques =
       and_then (AIM_run world self data workload num_synth_rows initial_cliques)
         (\<lambda>(result, s). Inr (result, s\<lparr>rounds := r\<rparr>))"
    using AIM_run_rounds_indep[of world r self data workload num_synth_rows initial_cliques]
    by (simp add: with_rounds_def)
  have 3: "AIM_run (world\<lparr>domain_len := dl\<rparr>) self data workload num_synth_rows initial_cliques =
       AIM_run world self data workload num_synth_rows initial_cliques"
    by (rule AIM_run_domain_len)
  from 1 2 3 show ?thesis by (intro conjI impI)
qed

theorem AIM_run_round_count_witness:
  "(\<exists>self' model initial adaptive.
      AIM_run_rounds toy_world (AIM_init 1 [] None 80 0) toy_data toy_workload None
        = Inr (self', model, initial @ adaptive)
      \<and> map M_clique initial = [[0], [1], [2]] \<and> length adaptive = 1)
   \<and> length toy_workload div 4 = 1
   \<and> (\<exists>result.
        AIM_run toy_world (AIM_init 1 [] None 80 0) toy_data toy_workload None None
          = Inr (result, \<lparr>rho = 1, prng = [sqrt 30, sqrt 30, sqrt 30, sqrt (20 / 19)], rounds = None,
                           max_model_size = 80, max_iters = 0, rho_used = 21 / 40\<rparr>)
      \<and> AIM_run toy_world (AIM_init 1 [] (Some 7) 80 0) toy_data toy_workload None None
          = Inr (result, \<lparr>rho = 1, prng = [sqrt 30, sqrt 30, sqrt 30, sqrt (20 / 19)], rounds = Some 7,
                           max_model_size = 80, max_iters = 0, rho_used = 21 / 40\<rparr>))"
proof -
  have b: "real (sum_list (map (\<lambda>cl. 2 ^ length cl) [[0::nat], [1], [2]]) + 8) * 8 / 2 ^ 20
             \<le> 80 * (real (length [[0::nat], [1], [2]]) / 60)"
    by simp
  have n: "[[0::nat], [1], [2]] \<noteq> []" and d: "distinct [[0::nat], [1], [2]]" by simp_all
  from toy_run_rounds[OF toy_default_initial n d b] obtain model where
    rr: "AIM_run_rounds toy_world (AIM_init 1 [] None 80 0) toy_data toy_workload None =
      Inr (\<lparr>rho = 1, prng = replicate (length [[0::nat], [1], [2]]) (sqrt 30) @ [sqrt (20 / 19)], rounds = None,
          max_model_size = 80, max_iters = 0, rho_used = real (length [[0::nat], [1], [2]]) / 60 + 19 / 40\<rparr>,
         model,
         toy_measurements (sqrt 30) [[0], [1], [2]] @
           [\<lparr>noisy_measurement = replicate 8 10, M_clique = [0, 1, 2], stddev = sqrt 30, query = Inr\<rparr>])"
    by blast
  from AIM_run_round_count[of toy_world "AIM_init 1 [] None 80 0" toy_data toy_workload None] rr
  obtain candidates initial adaptive where w:
    "compile_workload (set_order toy_world) toy_workload = Inr candidates"
    "toy_measurements (sqrt 30) [[0], [1], [2]] @
           [\<lparr>noisy_measurement = replicate 8 10, M_clique = [0, 1, 2], stddev = sqrt 30, query = Inr\<rparr>]
       = initial @ adaptive"
    "map M_clique initial = initial_cliques_of candidates None"
    "length adaptive = length toy_workload div 4"
    by blast
  have l: "length toy_workload div 4 = 1" by (simp add: toy_workload_def)
  from w(1) have "candidates = toy_candidates" by (simp add: toy_compile)
  with w(3) have i: "map M_clique initial = [[0], [1], [2]]" by (simp add: toy_default_initial)
  have 1: "\<exists>self' model initial adaptive.
      AIM_run_rounds toy_world (AIM_init 1 [] None 80 0) toy_data toy_workload None
        = Inr (self', model, initial @ adaptive)
      \<and> map M_clique initial = [[0], [1], [2]] \<and> length adaptive = 1"
    using rr w(2,4) i l by (intro exI[of _ model] exI[of _ initial] exI[of _ adaptive] exI conjI) simp_all
  from toy_run[OF toy_default_initial n d b, of None] obtain result where
    r: "AIM_run toy_world (AIM_init 1 [] None 80 0) toy_data toy_workload None None =
      Inr (result, \<lparr>rho = 1, prng = [sqrt 30, sqrt 30, sqrt 30, sqrt (20 / 19)], rounds = None,
          max_model_size = 80, max_iters = 0, rho_used = 21 / 40\<rparr>)"
    by (auto simp: numeral_3_eq_3)
  have "AIM_init 1 [] (Some 7) 80 0 = (AIM_init 1 ([] :: real list) None 80 0)\<lparr>rounds := Some 7\<rparr>"
    by (simp add: AIM_init_def)
  then have "AIM_run toy_world (AIM_init 1 [] (Some 7) 80 0) toy_data toy_workload None None
          = Inr (result, \<lparr>rho = 1, prng = [sqrt 30, sqrt 30, sqrt 30, sqrt (20 / 19)], rounds = Some 7,
                           max_model_size = 80, max_iters = 0, rho_used = 21 / 40\<rparr>)"
    using AIM_run_round_count[of toy_world "AIM_init 1 [] None 80 0" toy_data toy_workload None _ _ _
        "Some 7" None] r
    by simp
  with r have 3: "\<exists>result.
        AIM_run toy_world (AIM_init 1 [] None 80 0) toy_data toy_workload None None
          = Inr (result, \<lparr>rho = 1, prng = [sqrt 30, sqrt 30, sqrt 30, sqrt (20 / 19)], rounds = None,
                           max_model_size = 80, max_iters = 0, rho_used = 21 / 40\<rparr>)
      \<and> AIM_run toy_world (AIM_init 1 [] (Some 7) 80 0) toy_data toy_workload None None
          = Inr (result, \<lparr>rho = 1, prng = [sqrt 30, sqrt 30, sqrt 30, sqrt (20 / 19)], rounds = Some 7,
                           max_model_size = 80, max_iters = 0, rho_used = 21 / 40\<rparr>)"
    by (intro exI[of _ result] conjI)
  from 1 l 3 show ?thesis by (intro conjI)
qed

text \<open>
  The budget counter after a run that returns: the initial round charges each initial
  clique the share of a one-way candidate, and each adaptive round charges half of its
  share (the Gaussian measurement; the selection is not charged to the counter).
\<close>

lemma AIM_run_budget:
  assumes "AIM_run world self data workload num_synth_rows initial_cliques = Inr (result, self')"
  shows "\<exists>candidates. compile_workload (set_order world) workload = Inr candidates
     \<and> oneway_cliques candidates \<noteq> [] \<and> same_config self self'
     \<and> rho_used self' = rho_used self
          + real (length (initial_cliques_of candidates initial_cliques))
              / real (length (oneway_cliques candidates)) * (rho self * 0.05)
          + rho self * 0.475"
proof -
  from assms obtain model ms where
    r: "AIM_run_rounds world self data workload initial_cliques = Inr (self', model, ms)"
    by (auto simp: AIM_run_def Let_def elim!: and_thenE split: prod.splits)
  from AIM_run_rounds_state[OF r] obtain candidates where c:
    "compile_workload (set_order world) workload = Inr candidates"
    "oneway_cliques candidates \<noteq> []" "length workload div 4 \<noteq> 0" "same_config self self'"
    "rho_used self' = rho_used self
          + real (length (initial_cliques_of candidates initial_cliques))
              * (rho self * 0.05 / real (length (oneway_cliques candidates)))
          + real (length workload div 4) * (rho self * 0.95 / real (length workload div 4) / 2)"
    by auto
  have "real (length workload div 4) * (rho self * 0.95 / real (length workload div 4) / 2) = rho self * 0.475"
    using c(3) by simp
  with c(5) have "rho_used self' = rho_used self
          + real (length (initial_cliques_of candidates initial_cliques))
              / real (length (oneway_cliques candidates)) * (rho self * 0.05)
          + rho self * 0.475"
    by simp
  with c(1,2,4) show ?thesis by (intro exI[of _ candidates] conjI)
qed

text \<open>With the default initial cliques a fresh mechanism ends at 52.5 percent of its budget.\<close>

lemma AIM_run_budget_default:
  assumes "AIM_run world self data workload num_synth_rows None = Inr (result, self')"
    and "rho_used self = 0" and "0 \<le> rho self"
  shows "rho_used self' = 0.525 * rho self" and "rho_used self' \<le> rho self'"
proof -
  from AIM_run_budget[OF assms(1)] obtain candidates where c0:
    "compile_workload (set_order world) workload = Inr candidates
     \<and> oneway_cliques candidates \<noteq> [] \<and> same_config self self'
     \<and> rho_used self' = rho_used self
          + real (length (initial_cliques_of candidates None))
              / real (length (oneway_cliques candidates)) * (rho self * 0.05)
          + rho self * 0.475" ..
  then have c:
    "oneway_cliques candidates \<noteq> []" "same_config self self'"
    "rho_used self' = rho_used self
          + real (length (initial_cliques_of candidates None))
              / real (length (oneway_cliques candidates)) * (rho self * 0.05)
          + rho self * 0.475"
    by simp_all
  have "real (length (initial_cliques_of candidates None)) / real (length (oneway_cliques candidates)) = 1"
    using c(1) by (simp add: initial_cliques_of_def)
  with c(3) assms(2) show 1: "rho_used self' = 0.525 * rho self" by simp
  from c(2) have "rho self' = rho self" by (simp add: same_config_def)
  with 1 assms(3) show "rho_used self' \<le> rho self'" by simp
qed

text \<open>
  Claim C1 says that after every completed run the budget counter \<open>rho_used\<close> is at most
  \<open>rho\<close>. The code divides the 5 percent of the initial round by the number of one-way
  candidates and charges that share once per initial clique, so that a caller's list of
  initial cliques longer than the one-way candidates overdraws the round. Here a fresh
  mechanism with \<open>rho = 1\<close> runs on a workload of four cliques over three attributes with
  the one-way cliques of 32 attributes as initial cliques: the run returns with
  \<open>rho_used = 32 / 60 + 19 / 40 = 121 / 120\<close>, more than \<open>rho\<close>.
\<close>

theorem AIM_run_budget_exceeded:
  "\<exists>result self'.
     AIM_run toy_world (AIM_init 1 [] None 80 0) toy_data toy_workload None (Some toy_initial_cliques)
       = Inr (result, self')
   \<and> rho self' = 1 \<and> rho_used self' = 121 / 120 \<and> rho self' < rho_used self'"
proof -
  have b: "real (sum_list (map (\<lambda>cl. 2 ^ length cl) toy_initial_cliques) + 8) * 8 / 2 ^ 20
             \<le> 80 * (real (length toy_initial_cliques) / 60)"
    by (simp add: toy_cells toy_initial_length)
  from toy_run[OF toy_given_initial toy_initial_nonempty toy_initial_distinct b, of None]
  obtain result where
    "AIM_run toy_world (AIM_init 1 [] None 80 0) toy_data toy_workload None (Some toy_initial_cliques) =
      Inr (result, \<lparr>rho = 1, prng = replicate (length toy_initial_cliques) (sqrt 30) @ [sqrt (20 / 19)],
          rounds = None, max_model_size = 80, max_iters = 0,
          rho_used = real (length toy_initial_cliques) / 60 + 19 / 40\<rparr>)"
    by blast
  then have "AIM_run toy_world (AIM_init 1 [] None 80 0) toy_data toy_workload None (Some toy_initial_cliques) =
      Inr (result, \<lparr>rho = 1, prng = replicate 32 (sqrt 30) @ [sqrt (20 / 19)],
          rounds = None, max_model_size = 80, max_iters = 0, rho_used = 121 / 120\<rparr>)"
    by (simp add: toy_initial_length)
  then show ?thesis
    by (intro exI[of _ result] exI[of _ "\<lparr>rho = 1, prng = replicate 32 (sqrt 30) @ [sqrt (20 / 19)],
          rounds = None, max_model_size = 80, max_iters = 0, rho_used = 121 / 120\<rparr>"]) simp
qed

text \<open>
  Claim C2 says that the measurement appended in an adaptive round carries the noise
  scale \<open>1 / sqrt (2 * rho_i)\<close> of the Gaussian mechanism that produced it, with \<open>rho_i\<close>
  half of the round's share of the remaining 95 percent. The code measures at that
  \<open>rho_i\<close> and records the scale of the initial round instead. Here \<open>rho = 1\<close>, three
  one-way candidates and one adaptive round: the generator is asked for the scale
  \<open>sqrt 30\<close> three times in the initial round (\<open>rho_oneway_i = 1 / 60\<close>) and for
  \<open>sqrt (20 / 19)\<close> in the adaptive round (\<open>rho_i = 0.475\<close>), and the measurement of the
  adaptive round is recorded with \<open>stddev = sqrt 30\<close>.
\<close>

theorem AIM_round_recorded_stddev:
  "\<exists>model.
     AIM_run_rounds toy_world (AIM_init 1 [] None 80 0) toy_data toy_workload None =
       Inr (\<lparr>rho = 1, prng = [sqrt 30, sqrt 30, sqrt 30, sqrt (20 / 19)], rounds = None,
             max_model_size = 80, max_iters = 0, rho_used = 21 / 40\<rparr>,
            model,
            toy_measurements (sqrt 30) [[0], [1], [2]] @
              [\<lparr>noisy_measurement = replicate 8 10, M_clique = [0, 1, 2], stddev = sqrt 30, query = Inr\<rparr>])
   \<and> sqrt (1 / (2 * (1 * 0.95 / 1 / 2))) = sqrt (20 / 19)
   \<and> sqrt 30 \<noteq> sqrt (20 / 19)"
proof -
  have b: "real (sum_list (map (\<lambda>cl. 2 ^ length cl) [[0::nat], [1], [2]]) + 8) * 8 / 2 ^ 20
             \<le> 80 * (real (length [[0::nat], [1], [2]]) / 60)"
    by simp
  have n: "[[0::nat], [1], [2]] \<noteq> []" and d: "distinct [[0::nat], [1], [2]]" by simp_all
  from toy_run_rounds[OF toy_default_initial n d b] obtain model where
    "AIM_run_rounds toy_world (AIM_init 1 [] None 80 0) toy_data toy_workload None =
      Inr (\<lparr>rho = 1, prng = replicate (length [[0::nat], [1], [2]]) (sqrt 30) @ [sqrt (20 / 19)], rounds = None,
          max_model_size = 80, max_iters = 0, rho_used = real (length [[0::nat], [1], [2]]) / 60 + 19 / 40\<rparr>,
         model,
         toy_measurements (sqrt 30) [[0], [1], [2]] @
           [\<lparr>noisy_measurement = replicate 8 10, M_clique = [0, 1, 2], stddev = sqrt 30, query = Inr\<rparr>])"
    by blast
  then have "AIM_run_rounds toy_world (AIM_init 1 [] None 80 0) toy_data toy_workload None =
       Inr (\<lparr>rho = 1, prng = [sqrt 30, sqrt 30, sqrt 30, sqrt (20 / 19)], rounds = None,
             max_model_size = 80, max_iters = 0, rho_used = 21 / 40\<rparr>,
            model,
            toy_measurements (sqrt 30) [[0], [1], [2]] @
              [\<lparr>noisy_measurement = replicate 8 10, M_clique = [0, 1, 2], stddev = sqrt 30, query = Inr\<rparr>])"
    by (simp add: numeral_3_eq_3)
  moreover have "sqrt (1 / (2 * (1 * 0.95 / 1 / 2))) = sqrt (20 / 19)" by simp
  moreover have "sqrt 30 \<noteq> sqrt (20 / 19)" by simp
  ultimately show ?thesis by (intro exI[of _ model] conjI)
qed

end
